theory Spec2Isabelle
  imports Complex_Main "HOL-Library.Sublist"
begin

section \<open>Shared result types\<close>

text \<open>
  Instants are the integer millisecond readings of \<^verbatim>\<open>Date.now()\<close>. Every function that
  reads the clock takes the reading as an argument. Dollar amounts are JavaScript
  numbers. Where they are only stored and compared they are rationals, which every
  double is; where they are computed, the arithmetic is left open (see cost tracking).
\<close>

datatype period = Daily | Weekly | Monthly

text \<open>
  The \<^verbatim>\<open>reason\<close> strings of the source, as tagged values: the text of a message is
  determined by the tag and its arguments.
\<close>

datatype reason =
    PleaseWait int               \<comment> \<open>Please wait N seconds between submissions\<close>
  | TooManyPerMinute             \<comment> \<open>Too many requests per minute. Please slow down.\<close>
  | HourlyLimitReached           \<comment> \<open>Hourly request limit reached. Please try again later.\<close>
  | BudgetLimitReached period rat rat

record decision =
  allowed :: bool
  reason :: "reason option"

section \<open>Rate limiter (class RateLimiter)\<close>

record RateLimiter =
  requests :: "int list"
  lastRequestTime :: "int option"

definition MAX_REQUESTS_PER_MINUTE :: nat where
  "MAX_REQUESTS_PER_MINUTE = 10"

definition MAX_REQUESTS_PER_HOUR :: nat where
  "MAX_REQUESTS_PER_HOUR = 50"

definition MIN_DELAY_MS :: int where
  "MIN_DELAY_MS = 2000"

text \<open>The constructor: no timestamps, \<^verbatim>\<open>lastRequestTime = null\<close>.\<close>

definition new_RateLimiter :: RateLimiter where
  "new_RateLimiter = \<lparr>requests = [], lastRequestTime = None\<rparr>"

record rate_result = decision +
  waitTime :: int

text \<open>
  \<^verbatim>\<open>if (this.lastRequestTime)\<close> tests the field for truthiness: \<^verbatim>\<open>null\<close> and the
  number \<open>0\<close> both fail the test.
\<close>

definition truthy_time :: "int option \<Rightarrow> bool" where
  "truthy_time t = (case t of None \<Rightarrow> False | Some v \<Rightarrow> v \<noteq> 0)"

text \<open>\<^verbatim>\<open>Math.ceil(ms / 1000)\<close> on an integer number of milliseconds.\<close>

definition ceil_seconds :: "int \<Rightarrow> int" where
  "ceil_seconds ms = - ((- ms) div 1000)"

text \<open>The minimum-delay gate: the first \<^verbatim>\<open>if\<close> of \<^verbatim>\<open>checkRateLimit\<close> returns early.\<close>

definition delay_blocked :: "int \<Rightarrow> RateLimiter \<Rightarrow> bool" where
  "delay_blocked now rl =
     (case lastRequestTime rl of
        None \<Rightarrow> False
      | Some prev \<Rightarrow> truthy_time (Some prev) \<and> now - prev < MIN_DELAY_MS)"

definition checkRateLimit :: "int \<Rightarrow> RateLimiter \<Rightarrow> rate_result \<times> RateLimiter" where
  "checkRateLimit now rl =
     (if delay_blocked now rl then
        (let timeSinceLastRequest = now - (case lastRequestTime rl of Some prev \<Rightarrow> prev | None \<Rightarrow> 0);
             w = ceil_seconds (MIN_DELAY_MS - timeSinceLastRequest)
         in (\<lparr>allowed = False, reason = Some (PleaseWait w), waitTime = w\<rparr>, rl))
      else
        (let oneHourAgo = now - 60 * 60 * 1000;
             rl' = rl\<lparr>requests := filter (\<lambda>time. time > oneHourAgo) (requests rl)\<rparr>;
             oneMinuteAgo = now - 60 * 1000;
             requestsInLastMinute = length (filter (\<lambda>time. time > oneMinuteAgo) (requests rl'))
         in if requestsInLastMinute \<ge> MAX_REQUESTS_PER_MINUTE then
              (\<lparr>allowed = False, reason = Some TooManyPerMinute, waitTime = 60\<rparr>, rl')
            else if length (requests rl') \<ge> MAX_REQUESTS_PER_HOUR then
              (\<lparr>allowed = False, reason = Some HourlyLimitReached, waitTime = 3600\<rparr>, rl')
            else (\<lparr>allowed = True, reason = None, waitTime = 0\<rparr>, rl')))"

definition recordRequest :: "int \<Rightarrow> RateLimiter \<Rightarrow> RateLimiter" where
  "recordRequest now rl = \<lparr>requests = requests rl @ [now], lastRequestTime = Some now\<rparr>"

record limiter_stats =
  requestsThisMinute :: nat
  requestsThisHour :: nat
  maxPerMinute :: nat
  maxPerHour :: nat

definition getStats :: "int \<Rightarrow> RateLimiter \<Rightarrow> limiter_stats" where
  "getStats now rl =
     (let oneMinuteAgo = now - 60 * 1000;
          requestsInLastMinute = length (filter (\<lambda>time. time > oneMinuteAgo) (requests rl))
      in \<lparr>requestsThisMinute = requestsInLastMinute,
          requestsThisHour = length (requests rl),
          maxPerMinute = MAX_REQUESTS_PER_MINUTE,
          maxPerHour = MAX_REQUESTS_PER_HOUR\<rparr>)"

text \<open>Operations on the limiter, each with the clock reading it sees, run in order.\<close>

datatype limiter_op = Check int | Record int

fun op_time :: "limiter_op \<Rightarrow> int" where
  "op_time (Check t) = t"
| "op_time (Record t) = t"

fun limiter_step :: "RateLimiter \<Rightarrow> limiter_op \<Rightarrow> RateLimiter" where
  "limiter_step rl (Check t) = snd (checkRateLimit t rl)"
| "limiter_step rl (Record t) = recordRequest t rl"

definition limiter_run :: "limiter_op list \<Rightarrow> RateLimiter" where
  "limiter_run ops = foldl limiter_step new_RateLimiter ops"

text \<open>Every retained timestamp lies in the hour that ends at \<open>now\<close>.\<close>

definition within_hour :: "int \<Rightarrow> RateLimiter \<Rightarrow> bool" where
  "within_hour now rl = list_all (\<lambda>time. time > now - 60 * 60 * 1000) (requests rl)"

text \<open>
  The reference function of the specification, written from its words: a previous
  request that exists and lies under 2000 ms back denies with the remaining time rounded
  up to whole seconds; otherwise timestamps older than one hour are discarded, ten or
  more in the trailing minute deny with 60, fifty or more remaining deny with 3600, and
  anything else is allowed with no reason and no wait.
\<close>

definition checkRateLimit_spec :: "int \<Rightarrow> RateLimiter \<Rightarrow> bool \<times> int" where
  "checkRateLimit_spec now rl =
     (let kept = filter (\<lambda>t. now - t < 3600000) (requests rl) in
      case lastRequestTime rl of
        Some prev \<Rightarrow>
          if now - prev < 2000 then (False, \<lceil>of_int (2000 - (now - prev)) / (1000 :: rat)\<rceil>)
          else if 10 \<le> length (filter (\<lambda>t. now - t < 60000) kept) then (False, 60)
          else if 50 \<le> length kept then (False, 3600)
          else (True, 0)
      | None \<Rightarrow>
          if 10 \<le> length (filter (\<lambda>t. now - t < 60000) kept) then (False, 60)
          else if 50 \<le> length kept then (False, 3600)
          else (True, 0))"

definition result_view :: "rate_result \<Rightarrow> bool \<times> int" where
  "result_view r = (allowed r, waitTime r)"

section \<open>Errors\<close>

text \<open>Every \<^verbatim>\<open>throw\<close> and every rejected promise of the modelled code is one of these.\<close>

datatype error =
    InvalidInput                 \<comment> \<open>Invalid input\<close>
  | TooLong                      \<comment> \<open>Sentence too long (max 500 characters)\<close>
  | TooShort                     \<comment> \<open>Sentence too short\<close>
  | NotASentence                 \<comment> \<open>Input does not appear to be a valid sentence\<close>
  | NoApiKey                     \<comment> \<open>No API key configured. Please add one in Settings.\<close>
  | UnknownProvider string       \<comment> \<open>Unknown AI provider: ...\<close>
  | NetworkFailure               \<comment> \<open>\<^verbatim>\<open>fetch\<close> rejected\<close>
  | ApiError nat                 \<comment> \<open>the provider's message, or API Error: status\<close>
  | NoResponse                   \<comment> \<open>No response from AI\<close>
  | TypeError                    \<comment> \<open>a property read on \<^verbatim>\<open>null\<close> or \<^verbatim>\<open>undefined\<close>\<close>
  | StorageFailure               \<comment> \<open>\<^verbatim>\<open>AsyncStorage.setItem\<close> rejected\<close>

section \<open>Cost tracking (costTracking.js)\<close>

text \<open>
  JavaScript numbers are IEEE doubles, and the sums and products of the source round.
  Nothing below depends on how: the functions that compute with costs are written for
  any type of numbers \<open>'n\<close> with an addition, a multiplication, a division and a zero
  about which nothing is assumed, and take as argument \<open>num\<close>, the number that a decimal
  literal or a token count denotes. \<open>exact\<close> reads them as themselves, in the rationals;
  the doubles agree with that reading wherever they are exact, as on integers of
  moderate size.
\<close>

definition exact :: "rat \<Rightarrow> rat" where
  "exact x = x"

record 'n pricing =
  inputPrice :: 'n    \<comment> \<open>input\<close>
  outputPrice :: 'n   \<comment> \<open>output, a reserved word here\<close>

definition grok_4_fast_pricing :: "(rat \<Rightarrow> 'n) \<Rightarrow> 'n pricing" where
  "grok_4_fast_pricing num = \<lparr>inputPrice = num (20 / 100), outputPrice = num (50 / 100)\<rparr>"

definition grok_4_pricing :: "(rat \<Rightarrow> 'n) \<Rightarrow> 'n pricing" where
  "grok_4_pricing num = \<lparr>inputPrice = num 3, outputPrice = num 15\<rparr>"

definition PRICING :: "(rat \<Rightarrow> 'n) \<Rightarrow> string \<Rightarrow> 'n pricing option" where
  "PRICING num model =
     (if model = ''grok-4-fast-non-reasoning'' then Some (grok_4_fast_pricing num)
      else if model = ''grok-4'' then Some (grok_4_pricing num)
      else None)"

definition calculateCost ::
  "(rat \<Rightarrow> 'n) \<Rightarrow> string \<Rightarrow> nat \<Rightarrow> nat \<Rightarrow> 'n :: {plus, times, inverse}" where
  "calculateCost num model inputTokens outputTokens =
     (let pricing = (case PRICING num model of Some p \<Rightarrow> p | None \<Rightarrow> grok_4_fast_pricing num);
          inputCost = (num (of_nat inputTokens) / num 1000000) * inputPrice pricing;
          outputCost = (num (of_nat outputTokens) / num 1000000) * outputPrice pricing
      in inputCost + outputCost)"

text \<open>
  \<^verbatim>\<open>Math.ceil(text.length / 3.5)\<close>, on the number of UTF-16 code units of the text.
\<close>

definition estimateTokens :: "nat list \<Rightarrow> nat" where
  "estimateTokens text = nat \<lceil>of_nat (length text) / (35 / 10 :: rat)\<rceil>"

record 'n UsageRecord =
  timestamp :: int
  model :: string
  inputTokens :: nat
  outputTokens :: nat
  cost :: 'n

text \<open>
  The persisted statistics. The source's list field is \<^verbatim>\<open>requests\<close>, a name the rate
  limiter already has; \<^verbatim>\<open>lastResetDate\<close>, a display string nothing reads, is left out.
\<close>

record 'n UsageStats =
  totalRequests :: nat
  totalCost :: 'n
  dailyCost :: 'n
  weeklyCost :: 'n
  monthlyCost :: 'n
  requests_log :: "'n UsageRecord list"

text \<open>
  One key of \<^verbatim>\<open>AsyncStorage\<close>: nothing stored, a value, or a read that fails
  (\<^verbatim>\<open>getItem\<close> rejects, or \<^verbatim>\<open>JSON.parse\<close> throws). A value that was written reads
  back as it was written: \<^verbatim>\<open>JSON.stringify\<close> and \<^verbatim>\<open>JSON.parse\<close> restore every number.
\<close>

datatype 'a item = Missing | Unreadable | Stored 'a

record 'a budget_of =
  daily :: 'a
  weekly :: 'a
  monthly :: 'a

record 'n AsyncStorage =
  cost_tracking :: "'n UsageStats item"           \<comment> \<open>@cost_tracking\<close>
  budget_limits :: "'n option budget_of item"     \<comment> \<open>@budget_limits\<close>
  ai_provider :: "string item"                    \<comment> \<open>@ai_provider\<close>
  api_keys :: "(string \<times> string) list item"      \<comment> \<open>@api_keys\<close>

definition empty_stats :: "'n :: zero UsageStats" where
  "empty_stats = \<lparr>totalRequests = 0, totalCost = 0, dailyCost = 0, weeklyCost = 0,
     monthlyCost = 0, requests_log = []\<rparr>"

text \<open>\<^verbatim>\<open>getUsageStats\<close> catches a failed read and returns \<^verbatim>\<open>null\<close>.\<close>

definition getUsageStats :: "'n :: zero AsyncStorage \<Rightarrow> 'n UsageStats option" where
  "getUsageStats st =
     (case cost_tracking st of
        Missing \<Rightarrow> Some empty_stats
      | Stored s \<Rightarrow> Some s
      | Unreadable \<Rightarrow> None)"

text \<open>
  \<^verbatim>\<open>.filter(r => r.timestamp > since).reduce((sum, r) => sum + r.cost, 0)\<close>: the costs
  are added from the left, starting from zero.
\<close>

definition window_cost :: "int \<Rightarrow> 'n UsageRecord list \<Rightarrow> 'n :: {plus, zero}" where
  "window_cost since rs = foldl (\<lambda>sum r. sum + cost r) 0 (filter (\<lambda>r. timestamp r > since) rs)"

text \<open>
  \<^verbatim>\<open>recordUsage\<close> reads the clock twice (\<open>stamp\<close> for the record, \<open>now\<close> for the
  windows); \<open>write_ok\<close> says whether \<^verbatim>\<open>setItem\<close> succeeds. With \<^verbatim>\<open>null\<close> statistics
  the first property access throws; every error is logged and thrown again.
\<close>

definition recordUsage_in ::
  "(rat \<Rightarrow> 'n) \<Rightarrow> string \<Rightarrow> nat \<Rightarrow> nat \<Rightarrow> int \<Rightarrow> int \<Rightarrow> bool \<Rightarrow> 'n AsyncStorage
     \<Rightarrow> error + ('n UsageStats \<times> ('n :: {plus, times, inverse, zero}) AsyncStorage)" where
  "recordUsage_in num mdl inTok outTok stamp now write_ok st =
     (case getUsageStats st of
        None \<Rightarrow> Inl TypeError
      | Some stats \<Rightarrow>
          (let cost = calculateCost num mdl inTok outTok;
               request = \<lparr>timestamp = stamp, model = mdl, inputTokens = inTok,
                          outputTokens = outTok, cost = cost\<rparr>;
               pushed = requests_log stats @ [request];
               oneDayAgo = now - 24 * 60 * 60 * 1000;
               oneWeekAgo = now - 7 * 24 * 60 * 60 * 1000;
               oneMonthAgo = now - 30 * 24 * 60 * 60 * 1000;
               stats' = \<lparr>totalRequests = totalRequests stats + 1,
                          totalCost = totalCost stats + cost,
                          dailyCost = window_cost oneDayAgo pushed,
                          weeklyCost = window_cost oneWeekAgo pushed,
                          monthlyCost = window_cost oneMonthAgo pushed,
                          requests_log = filter (\<lambda>r. timestamp r > oneMonthAgo) pushed\<rparr>
           in if write_ok then Inr (stats', st\<lparr>cost_tracking := Stored stats'\<rparr>)
              else Inl StorageFailure))"

text \<open>
  \<^verbatim>\<open>recordUsage\<close> at the exact reading, for the callers below that look at no cost.
\<close>

definition recordUsage ::
  "string \<Rightarrow> nat \<Rightarrow> nat \<Rightarrow> int \<Rightarrow> int \<Rightarrow> bool \<Rightarrow> rat AsyncStorage
     \<Rightarrow> error + (rat UsageStats \<times> rat AsyncStorage)" where
  "recordUsage = recordUsage_in exact"

record budget_result = decision +
  currentCost :: "rat option"
  limit :: "rat option"
  period :: "period option"

definition defaultBudget :: "rat budget_of" where
  "defaultBudget = \<lparr>daily = 1, weekly = 5, monthly = 15\<rparr>"

text \<open>
  \<^verbatim>\<open>{ ...defaultBudget, ...budget }\<close>: a key the argument has wins, \<^verbatim>\<open>null\<close> adds nothing.
\<close>

definition spread_budget :: "rat budget_of \<Rightarrow> rat option budget_of option \<Rightarrow> rat budget_of" where
  "spread_budget d b =
     (case b of
        None \<Rightarrow> d
      | Some given \<Rightarrow>
          \<lparr>daily = (case daily given of Some v \<Rightarrow> v | None \<Rightarrow> daily d),
           weekly = (case weekly given of Some v \<Rightarrow> v | None \<Rightarrow> weekly d),
           monthly = (case monthly given of Some v \<Rightarrow> v | None \<Rightarrow> monthly d)\<rparr>)"

definition budget_ok :: budget_result where
  "budget_ok = \<lparr>allowed = True, reason = None, currentCost = None, limit = None, period = None\<rparr>"

definition budget_denied :: "period \<Rightarrow> rat \<Rightarrow> rat \<Rightarrow> budget_result" where
  "budget_denied p c l =
     \<lparr>allowed = False, reason = Some (BudgetLimitReached p c l),
      currentCost = Some c, limit = Some l, period = Some p\<rparr>"

definition checkBudget :: "rat option budget_of option \<Rightarrow> rat AsyncStorage \<Rightarrow> budget_result" where
  "checkBudget budget st =
     (let limits = spread_budget defaultBudget budget in
      case getUsageStats st of
        None \<Rightarrow> budget_ok
      | Some stats \<Rightarrow>
          if dailyCost stats \<ge> daily limits then
            budget_denied Daily (dailyCost stats) (daily limits)
          else if weeklyCost stats \<ge> weekly limits then
            budget_denied Weekly (weeklyCost stats) (weekly limits)
          else if monthlyCost stats \<ge> monthly limits then
            budget_denied Monthly (monthlyCost stats) (monthly limits)
          else budget_ok)"

definition getBudgetLimits :: "rat AsyncStorage \<Rightarrow> rat option budget_of option" where
  "getBudgetLimits st =
     (case budget_limits st of
        Missing \<Rightarrow> Some \<lparr>daily = Some 1, weekly = Some 5, monthly = Some 15\<rparr>
      | Stored b \<Rightarrow> Some b
      | Unreadable \<Rightarrow> None)"

definition resetUsageStats :: "'n AsyncStorage \<Rightarrow> 'n AsyncStorage" where
  "resetUsageStats st = st\<lparr>cost_tracking := Missing\<rparr>"

text \<open>
  A history of \<^verbatim>\<open>recordUsage\<close> calls, each with its arguments, its two clock readings
  and whether its write succeeds. A call that fails leaves the store as it was.
\<close>

datatype usage_call = UsageCall string nat nat int int bool

fun call_ok :: "usage_call \<Rightarrow> bool" where
  "call_ok (UsageCall mdl i out stamp now ok) = ok"

fun call_cost :: "(rat \<Rightarrow> 'n) \<Rightarrow> usage_call \<Rightarrow> 'n :: {plus, times, inverse}" where
  "call_cost num (UsageCall mdl i out stamp now ok) = calculateCost num mdl i out"

fun call_record :: "(rat \<Rightarrow> 'n) \<Rightarrow> usage_call \<Rightarrow> ('n :: {plus, times, inverse}) UsageRecord" where
  "call_record num (UsageCall mdl i out stamp now ok) =
     \<lparr>timestamp = stamp, model = mdl, inputTokens = i, outputTokens = out,
      cost = calculateCost num mdl i out\<rparr>"

fun ledger_step ::
  "(rat \<Rightarrow> 'n) \<Rightarrow> 'n AsyncStorage \<Rightarrow> usage_call \<Rightarrow> ('n :: {plus, times, inverse, zero}) AsyncStorage" where
  "ledger_step num st (UsageCall mdl i out stamp now ok) =
     (case recordUsage_in num mdl i out stamp now ok st of
        Inl e \<Rightarrow> st
      | Inr (stats, st') \<Rightarrow> st')"

definition ledger_run ::
  "(rat \<Rightarrow> 'n) \<Rightarrow> 'n AsyncStorage \<Rightarrow> usage_call list \<Rightarrow> ('n :: {plus, times, inverse, zero}) AsyncStorage" where
  "ledger_run num st calls = foldl (ledger_step num) st calls"

definition fresh_storage :: "'n AsyncStorage" where
  "fresh_storage = \<lparr>cost_tracking = Missing, budget_limits = Missing,
     ai_provider = Missing, api_keys = Missing\<rparr>"

text \<open>The statistics a read of the store gives, \<open>empty_stats\<close> when there are none.\<close>

definition ledger_of :: "'n :: zero AsyncStorage \<Rightarrow> 'n UsageStats" where
  "ledger_of st = (case getUsageStats st of Some s \<Rightarrow> s | None \<Rightarrow> empty_stats)"

text \<open>
  The sum of the cost fields of the retained records, added as the source's \<^verbatim>\<open>reduce\<close>
  adds them.
\<close>

definition retained_cost :: "'n UsageStats \<Rightarrow> 'n :: {plus, zero}" where
  "retained_cost s = foldl (\<lambda>sum r. sum + cost r) 0 (requests_log s)"

text \<open>
  What a history of calls establishes: the store stays readable, \<open>totalCost\<close> is the
  running sum of the costs of the calls that were written, and the retained records are
  some of the written ones, in order.
\<close>

definition ledger_inv ::
  "(rat \<Rightarrow> 'n) \<Rightarrow> ('n :: {plus, times, inverse, zero}) AsyncStorage \<Rightarrow> usage_call list \<Rightarrow> bool" where
  "ledger_inv num st calls =
     (cost_tracking st \<noteq> Unreadable
      \<and> totalCost (ledger_of st) = foldl (+) 0 (map (call_cost num) (filter call_ok calls))
      \<and> subseq (requests_log (ledger_of st)) (map (call_record num) (filter call_ok calls)))"

section \<open>JavaScript strings and regular expressions\<close>

text \<open>
  A JavaScript string is its list of UTF-16 code units; \<^verbatim>\<open>length\<close> counts them.
  \<open>of_ascii\<close> writes an ASCII literal as code units.
\<close>

type_synonym jsstring = "nat list"

definition of_ascii :: "string \<Rightarrow> jsstring" where
  "of_ascii s = map of_char s"

text \<open>
  What \<^verbatim>\<open>\s\<close> matches and \<^verbatim>\<open>trim\<close> strips: tab, line feed, vertical tab, form feed,
  carriage return, space, no-break space, U+1680, U+2000 to U+200A, the line and
  paragraph separators, U+202F, U+205F, U+3000 and the byte order mark.
\<close>

definition is_space :: "nat \<Rightarrow> bool" where
  "is_space c =
     (c \<in> set [9, 10, 11, 12, 13, 32, 160, 5760, 8232, 8233, 8239, 8287, 12288, 65279]
      \<or> (8192 \<le> c \<and> c \<le> 8202))"

text \<open>
  The \<^verbatim>\<open>i\<close> flag compares canonical (upper-cased) code units. The literal characters
  of the patterns below are ASCII, and no code unit outside ASCII canonicalises into
  ASCII, so a code unit matches a pattern character exactly when the two agree after
  upper-casing \<^verbatim>\<open>a\<close> to \<^verbatim>\<open>z\<close>.
\<close>

definition canon :: "nat \<Rightarrow> nat" where
  "canon c = (if 97 \<le> c \<and> c \<le> 122 then c - 32 else c)"

text \<open>
  The fragment of regular expressions the source uses: a literal, \<^verbatim>\<open>\s+\<close>, \<^verbatim>\<open>\s*\<close>,
  alternation, sequence, and \<^verbatim>\<open>?\<close>.
\<close>

datatype regex =
    Lit jsstring
  | SpacePlus
  | SpaceStar
  | Alt regex regex
  | Seq regex regex
  | Opt regex

fun lit_match :: "jsstring \<Rightarrow> jsstring \<Rightarrow> bool" where
  "lit_match [] s = True"
| "lit_match (p # ps) [] = False"
| "lit_match (p # ps) (c # cs) = (canon c = canon p \<and> lit_match ps cs)"

text \<open>
  \<open>rematch r s\<close> lists the lengths of the matches of \<open>r\<close> at the start of \<open>s\<close>, in
  the order the backtracking matcher tries them (greedy quantifiers take the longest
  first, the left alternative comes first). The match the engine reports is the head.
\<close>

fun rematch :: "regex \<Rightarrow> jsstring \<Rightarrow> nat list" where
  "rematch (Lit l) s = (if lit_match l s then [length l] else [])"
| "rematch SpacePlus s = rev [1 ..< Suc (length (takeWhile is_space s))]"
| "rematch SpaceStar s = rev [0 ..< Suc (length (takeWhile is_space s))]"
| "rematch (Alt a b) s = rematch a s @ rematch b s"
| "rematch (Seq a b) s = concat (map (\<lambda>n. map ((+) n) (rematch b (drop n s))) (rematch a s))"
| "rematch (Opt a) s = rematch a s @ [0]"

text \<open>\<^verbatim>\<open>pattern.test(s)\<close> on a fresh pattern: is there a match at some position.\<close>

fun re_test :: "regex \<Rightarrow> jsstring \<Rightarrow> bool" where
  "re_test r [] = (if rematch r [] = [] then False else True)"
| "re_test r (c # cs) = (if rematch r (c # cs) = [] then re_test r cs else True)"

text \<open>
  \<^verbatim>\<open>s.replace(pattern, rep)\<close> with the \<^verbatim>\<open>g\<close> flag: scan from the left, replace the match
  found at the first position that has one, go on behind it; after an empty match the
  next code unit is copied.
\<close>

fun replace_all :: "regex \<Rightarrow> jsstring \<Rightarrow> jsstring \<Rightarrow> jsstring" where
  "replace_all r rep [] = (case rematch r [] of [] \<Rightarrow> [] | n # ns \<Rightarrow> rep)"
| "replace_all r rep (c # cs) =
     (case rematch r (c # cs) of
        [] \<Rightarrow> c # replace_all r rep cs
      | n # ns \<Rightarrow>
          if n = 0 then rep @ c # replace_all r rep cs
          else rep @ replace_all r rep (drop n (c # cs)))"

text \<open>
  Two syntactic properties of an expression, for the proofs: \<open>avoids c r\<close> when no
  literal character of \<open>r\<close> matches the code unit \<open>c\<close>, and \<open>nullable r\<close> when \<open>r\<close>
  can match the empty string.
\<close>

fun avoids :: "nat \<Rightarrow> regex \<Rightarrow> bool" where
  "avoids c (Lit l) = list_all (\<lambda>p. canon p \<noteq> canon c) l"
| "avoids c SpacePlus = True"
| "avoids c SpaceStar = True"
| "avoids c (Alt a b) = (avoids c a \<and> avoids c b)"
| "avoids c (Seq a b) = (avoids c a \<and> avoids c b)"
| "avoids c (Opt a) = avoids c a"

fun nullable :: "regex \<Rightarrow> bool" where
  "nullable (Lit l) = (l = [])"
| "nullable SpacePlus = False"
| "nullable SpaceStar = True"
| "nullable (Alt a b) = (nullable a \<or> nullable b)"
| "nullable (Seq a b) = (nullable a \<and> nullable b)"
| "nullable (Opt a) = True"

definition trim :: "jsstring \<Rightarrow> jsstring" where
  "trim s = rev (dropWhile is_space (rev (dropWhile is_space s)))"

section \<open>Security (security.js)\<close>

text \<open>
  The eight patterns of the source's array, in its order:
  \<^verbatim>\<open>/ignore\s+(previous|above|all)\s+instructions?/gi\<close>,
  \<^verbatim>\<open>/system\s+prompt/gi\<close>,
  \<^verbatim>\<open>/you\s+are\s+(now|actually)/gi\<close>,
  \<^verbatim>\<open>/forget\s+(everything|all|previous)/gi\<close>,
  \<^verbatim>\<open>/new\s+instructions?:/gi\<close>,
  \<^verbatim>\<open>/role\s*:\s*system/gi\<close>,
  \<^verbatim>\<open>/\[system\]/gi\<close>,
  \<^verbatim>\<open>/assistant\s+mode/gi\<close>.
\<close>

definition pat_ignore :: regex where
  "pat_ignore =
     Seq (Lit (of_ascii ''ignore'')) (Seq SpacePlus
       (Seq (Alt (Lit (of_ascii ''previous'')) (Alt (Lit (of_ascii ''above'')) (Lit (of_ascii ''all''))))
         (Seq SpacePlus (Seq (Lit (of_ascii ''instruction'')) (Opt (Lit (of_ascii ''s'')))))))"

definition pat_system_prompt :: regex where
  "pat_system_prompt = Seq (Lit (of_ascii ''system'')) (Seq SpacePlus (Lit (of_ascii ''prompt'')))"

definition pat_you_are :: regex where
  "pat_you_are =
     Seq (Lit (of_ascii ''you'')) (Seq SpacePlus (Seq (Lit (of_ascii ''are''))
       (Seq SpacePlus (Alt (Lit (of_ascii ''now'')) (Lit (of_ascii ''actually''))))))"

definition pat_forget :: regex where
  "pat_forget =
     Seq (Lit (of_ascii ''forget'')) (Seq SpacePlus
       (Alt (Lit (of_ascii ''everything'')) (Alt (Lit (of_ascii ''all'')) (Lit (of_ascii ''previous'')))))"

definition pat_new_instructions :: regex where
  "pat_new_instructions =
     Seq (Lit (of_ascii ''new'')) (Seq SpacePlus
       (Seq (Lit (of_ascii ''instruction'')) (Seq (Opt (Lit (of_ascii ''s''))) (Lit (of_ascii '':'')))))"

definition pat_role_system :: regex where
  "pat_role_system =
     Seq (Lit (of_ascii ''role'')) (Seq SpaceStar
       (Seq (Lit (of_ascii '':'')) (Seq SpaceStar (Lit (of_ascii ''system'')))))"

definition pat_bracket_system :: regex where
  "pat_bracket_system = Lit (of_ascii ''[system]'')"

definition pat_assistant_mode :: regex where
  "pat_assistant_mode = Seq (Lit (of_ascii ''assistant'')) (Seq SpacePlus (Lit (of_ascii ''mode'')))"

definition suspiciousPatterns :: "regex list" where
  "suspiciousPatterns =
     [pat_ignore, pat_system_prompt, pat_you_are, pat_forget, pat_new_instructions,
      pat_role_system, pat_bracket_system, pat_assistant_mode]"

definition redacted :: jsstring where
  "redacted = of_ascii ''[redacted]''"

definition MAX_LENGTH :: nat where
  "MAX_LENGTH = 500"

definition MIN_LENGTH :: nat where
  "MIN_LENGTH = 3"

text \<open>The argument of \<^verbatim>\<open>sanitizeUserInput\<close> is any value; only strings get past the first test.\<close>

datatype jsvalue = Str jsstring | NonString

text \<open>
  The text after \<^verbatim>\<open>trim\<close>, the whitespace collapse and, when some pattern is found,
  the eight replacements in order.
\<close>

definition cleaned :: "jsstring \<Rightarrow> jsstring" where
  "cleaned raw =
     (let sanitized = replace_all SpacePlus (of_ascii '' '') (trim raw);
          containsSuspiciousContent = list_ex (\<lambda>pattern. re_test pattern sanitized) suspiciousPatterns
      in if containsSuspiciousContent
         then fold (\<lambda>pattern s. replace_all pattern redacted s) suspiciousPatterns sanitized
         else sanitized)"

definition sanitizeUserInput :: "jsvalue \<Rightarrow> error + jsstring" where
  "sanitizeUserInput input =
     (case input of
        NonString \<Rightarrow> Inl InvalidInput
      | Str raw \<Rightarrow>
          if raw = [] then Inl InvalidInput
          else
            (let sanitized = cleaned raw
             in if length sanitized > MAX_LENGTH then Inl TooLong
                else if length sanitized < MIN_LENGTH then Inl TooShort
                else Inr sanitized))"

text \<open>
  The class \<^verbatim>\<open>[a-z...]\<close> of \<^verbatim>\<open>validateFrenchSentence\<close> under the \<^verbatim>\<open>i\<close> flag: the ASCII
  letters and the seventeen accented letters of the source, in both cases.
\<close>

definition accented_lower :: "nat list" where
  "accented_lower =
     [224, 226, 228, 230, 231, 233, 232, 234, 235, 239, 238, 244, 249, 251, 252, 255, 339]"

definition accented_upper :: "nat list" where
  "accented_upper =
     [192, 194, 196, 198, 199, 201, 200, 202, 203, 207, 206, 212, 217, 219, 220, 376, 338]"

definition is_letter :: "nat \<Rightarrow> bool" where
  "is_letter c =
     ((97 \<le> c \<and> c \<le> 122) \<or> (65 \<le> c \<and> c \<le> 90)
      \<or> c \<in> set accented_lower \<or> c \<in> set accented_upper)"

text \<open>
  The class of the ratio: anything but a letter, whitespace, the apostrophe and the hyphen.
\<close>

definition is_special :: "nat \<Rightarrow> bool" where
  "is_special c = (\<not> is_letter c \<and> \<not> is_space c \<and> c \<noteq> 39 \<and> c \<noteq> 45)"

text \<open>
  \<^verbatim>\<open>input.match(/[...]/gi)\<close> for a one-character class: the array of the matching code
  units, or \<^verbatim>\<open>null\<close> when there is none.
\<close>

definition match_class :: "(nat \<Rightarrow> bool) \<Rightarrow> jsstring \<Rightarrow> jsstring option" where
  "match_class cls s = (let found = filter cls s in if found = [] then None else Some found)"

text \<open>
  JavaScript numbers as far as the ratio needs them: a quotient of two lengths is a
  rational, not-a-number for \<open>0 / 0\<close>, infinity for any other division by zero. Every
  comparison with not-a-number is false.
\<close>

datatype jsnum = Num rat | NaN | Infinity

definition js_div :: "nat \<Rightarrow> nat \<Rightarrow> jsnum" where
  "js_div a b = (if b = 0 then (if a = 0 then NaN else Infinity) else Num (of_nat a / of_nat b))"

fun js_less :: "jsnum \<Rightarrow> rat \<Rightarrow> bool" where
  "js_less (Num x) y = (x < y)"
| "js_less NaN y = False"
| "js_less Infinity y = False"

text \<open>
  \<^verbatim>\<open>x || []\<close> on what \<^verbatim>\<open>match\<close> returns, and \<^verbatim>\<open>x.length\<close>, which throws a type error
  when \<open>x\<close> is \<^verbatim>\<open>null\<close>.
\<close>

definition or_empty :: "'a list option \<Rightarrow> 'a list option" where
  "or_empty x = (case x of None \<Rightarrow> Some [] | Some found \<Rightarrow> Some found)"

definition array_length :: "'a list option \<Rightarrow> error + nat" where
  "array_length x = (case x of None \<Rightarrow> Inl TypeError | Some found \<Rightarrow> Inr (length found))"

definition specialCharRatio :: "jsstring \<Rightarrow> error + jsnum" where
  "specialCharRatio input =
     (case array_length (or_empty (match_class is_special input)) of
        Inl e \<Rightarrow> Inl e
      | Inr n \<Rightarrow> Inr (js_div n (length input)))"

definition validateFrenchSentence :: "jsstring \<Rightarrow> error + bool" where
  "validateFrenchSentence input =
     (let hasLetters = list_ex is_letter input;
          notOnlySpecial = \<not> (input \<noteq> [] \<and> list_all (\<lambda>c. \<not> is_letter c) input)
      in case specialCharRatio input of
           Inl e \<Rightarrow> Inl e
         | Inr ratio \<Rightarrow>
             (let notTooManySpecial = js_less ratio (3 / 10)
              in Inr (hasLetters \<and> notOnlySpecial \<and> notTooManySpecial)))"

text \<open>
  The shape of a cleaned text: the only whitespace is a single space between two other
  code units (\<open>tidy\<close>), and the text does not begin with one (\<open>normal\<close>).
\<close>

fun tidy :: "jsstring \<Rightarrow> bool" where
  "tidy [] = True"
| "tidy [c] = (\<not> is_space c)"
| "tidy (c # d # cs) = ((if is_space c then c = 32 \<and> \<not> is_space d else True) \<and> tidy (d # cs))"

definition normal :: "jsstring \<Rightarrow> bool" where
  "normal s = (tidy s \<and> (case s of [] \<Rightarrow> True | c # cs \<Rightarrow> \<not> is_space c))"

section \<open>The provider (aiProviders/grokProvider.js)\<close>

definition MODEL_NAME :: string where
  "MODEL_NAME = ''grok-4-fast-non-reasoning''"

text \<open>
  The template of \<^verbatim>\<open>buildPrompt\<close>: its four constant stretches, around the verb, the
  tense and the student's sentence.
\<close>

definition prompt_head :: string where
  "prompt_head =
     ''You are a French language teacher evaluating a student's sentence.'' @
       [CHR ''\<newline>''] @ [CHR ''\<newline>''] @ ''Verb (infinitive): ''"

definition prompt_tense :: string where
  "prompt_tense =
     [CHR ''\<newline>''] @ ''Required tense: ''"

definition prompt_sentence :: string where
  "prompt_sentence =
     [CHR ''\<newline>''] @ ''Student's sentence: '' @ [CHR 0x22]"

definition prompt_tail :: string where
  "prompt_tail =
     [CHR 0x22] @ [CHR ''\<newline>''] @ [CHR ''\<newline>''] @
       ''Analyze the sentence thoroughly and respond with ONLY valid JSON (no markdown, no extra text) in this exact format:'' @
       [CHR ''\<newline>''] @ ''{'' @ [CHR ''\<newline>''] @ ''  '' @ [CHR 0x22] @
       ''isCorrect'' @ [CHR 0x22] @
       '': true or false (whether the verb is conjugated correctly),'' @ [CHR ''\<newline>''] @
       ''  '' @ [CHR 0x22] @ ''correctConjugation'' @ [CHR 0x22] @ '': '' @ [CHR 0x22] @
       ''the correct conjugation if wrong, or empty string if correct'' @ [CHR 0x22] @ '','' @
       [CHR ''\<newline>''] @ ''  '' @ [CHR 0x22] @ ''verbAnalysis'' @ [CHR 0x22] @ '': '' @
       [CHR 0x22] @ ''brief explanation of the verb conjugation'' @ [CHR 0x22] @ '','' @
       [CHR ''\<newline>''] @ ''  '' @ [CHR 0x22] @ ''grammarIssues'' @ [CHR 0x22] @ '': ['' @
       [CHR 0x22] @ ''list of any grammar or structure issues, or empty array if none'' @
       [CHR 0x22] @ ''],'' @ [CHR ''\<newline>''] @ ''  '' @ [CHR 0x22] @ ''semanticAnalysis'' @
       [CHR 0x22] @ '': '' @ [CHR 0x22] @
       ''evaluate if the sentence sounds natural to a native French speaker, or if there's a more idiomatic way to express the same idea'' @
       [CHR 0x22] @ '','' @ [CHR ''\<newline>''] @ ''  '' @ [CHR 0x22] @
       ''alternativePhrasings'' @ [CHR 0x22] @ '': ['' @ [CHR 0x22] @
       ''1-2 more natural French alternatives, or empty array if the sentence is already natural'' @
       [CHR 0x22] @ ''],'' @ [CHR ''\<newline>''] @ ''  '' @ [CHR 0x22] @ ''suggestion'' @
       [CHR 0x22] @ '': '' @ [CHR 0x22] @ ''one helpful tip for improvement'' @ [CHR 0x22] @
       '','' @ [CHR ''\<newline>''] @ ''  '' @ [CHR 0x22] @ ''encouragement'' @ [CHR 0x22] @
       '': '' @ [CHR 0x22] @ ''brief positive comment'' @ [CHR 0x22] @ [CHR ''\<newline>''] @
       ''}'' @ [CHR ''\<newline>''] @ [CHR ''\<newline>''] @
       ''Be constructive, encouraging, and focus on helping the student sound more like a native French speaker.''"

definition buildPrompt :: "jsstring \<Rightarrow> jsstring \<Rightarrow> jsstring \<Rightarrow> jsstring" where
  "buildPrompt verb tense userSentence =
     of_ascii prompt_head @ verb @ of_ascii prompt_tense @ tense
       @ of_ascii prompt_sentence @ userSentence @ of_ascii prompt_tail"

text \<open>
  What \<^verbatim>\<open>fetch\<close> and \<^verbatim>\<open>response.json()\<close> give: a rejection, a status that is not ok, or
  the body. Of the body the code reads \<^verbatim>\<open>choices[0]?.message?.content\<close> and \<^verbatim>\<open>usage\<close>;
  both may be missing, and so may each token count.
\<close>

record usage_report =
  prompt_tokens :: "nat option"
  completion_tokens :: "nat option"

record api_data =
  choices :: "jsstring option list option"
  usage :: "usage_report option"

datatype fetch_result = FetchRejected | HttpNotOk nat | HttpOk api_data

text \<open>
  Everything outside the program that one call meets: the provider's answer, the two
  clock readings of \<^verbatim>\<open>recordUsage\<close>, and whether the store accepts the write.
\<close>

record call_env =
  response :: fetch_result
  usage_stamp :: int
  usage_now :: int
  write_ok :: bool

text \<open>
  \<^verbatim>\<open>parseAIResponse\<close> turns the text of the answer into the feedback object and never
  throws; the feedback is represented by the text it is computed from.
\<close>

datatype feedback = Feedback jsstring

definition parseAIResponse :: "jsstring \<Rightarrow> feedback" where
  "parseAIResponse aiText = Feedback aiText"

text \<open>
  The outcome of a call: what it returns or throws, the store afterwards, how many
  network calls it attempted, and the arguments of the \<^verbatim>\<open>recordUsage\<close> call if it made one.
\<close>

record call_outcome =
  result :: "error + feedback"
  storage :: "rat AsyncStorage"
  fetches :: nat
  usage_attempt :: "(string \<times> nat \<times> nat) option"

text \<open>\<^verbatim>\<open>reported || estimateTokens(text)\<close>: a count that is missing or zero is estimated.\<close>

definition token_count :: "nat option \<Rightarrow> jsstring \<Rightarrow> nat" where
  "token_count reported text =
     (case reported of
        None \<Rightarrow> estimateTokens text
      | Some n \<Rightarrow> if n = 0 then estimateTokens text else n)"

text \<open>\<^verbatim>\<open>data.choices[0]?.message?.content\<close>, for a \<^verbatim>\<open>choices\<close> array that is there.\<close>

definition first_content :: "jsstring option list \<Rightarrow> jsstring option" where
  "first_content cs = (case cs of [] \<Rightarrow> None | c # rest \<Rightarrow> c)"

definition grok_evaluateSentence ::
  "jsstring \<Rightarrow> jsstring \<Rightarrow> jsvalue \<Rightarrow> string \<Rightarrow> call_env \<Rightarrow> rat AsyncStorage \<Rightarrow> call_outcome" where
  "grok_evaluateSentence verb tense userSentence apiKey env st =
     (case sanitizeUserInput userSentence of
        Inl e \<Rightarrow> \<lparr>result = Inl e, storage = st, fetches = 0, usage_attempt = None\<rparr>
      | Inr sanitizedSentence \<Rightarrow>
         (case validateFrenchSentence sanitizedSentence of
            Inl e \<Rightarrow> \<lparr>result = Inl e, storage = st, fetches = 0, usage_attempt = None\<rparr>
          | Inr looks_valid \<Rightarrow>
          if \<not> looks_valid then
            \<lparr>result = Inl NotASentence, storage = st, fetches = 0, usage_attempt = None\<rparr>
          else
            (let prompt = buildPrompt verb tense sanitizedSentence in
             case response env of
               FetchRejected \<Rightarrow>
                 \<lparr>result = Inl NetworkFailure, storage = st, fetches = 1, usage_attempt = None\<rparr>
             | HttpNotOk status \<Rightarrow>
                 \<lparr>result = Inl (ApiError status), storage = st, fetches = 1, usage_attempt = None\<rparr>
             | HttpOk data \<Rightarrow>
                 (case choices data of
                    None \<Rightarrow>
                      \<lparr>result = Inl TypeError, storage = st, fetches = 1, usage_attempt = None\<rparr>
                  | Some cs \<Rightarrow>
                      (case first_content cs of
                         None \<Rightarrow>
                           \<lparr>result = Inl NoResponse, storage = st, fetches = 1,
                            usage_attempt = None\<rparr>
                       | Some aiMessage \<Rightarrow>
                           if aiMessage = [] then
                             \<lparr>result = Inl NoResponse, storage = st, fetches = 1,
                              usage_attempt = None\<rparr>
                           else
                             (case usage data of
                                None \<Rightarrow>
                                  \<lparr>result = Inr (parseAIResponse aiMessage), storage = st,
                                   fetches = 1, usage_attempt = None\<rparr>
                              | Some u \<Rightarrow>
                                  (let inTok = token_count (prompt_tokens u) prompt;
                                       outTok = token_count (completion_tokens u) aiMessage
                                   in \<lparr>result = Inr (parseAIResponse aiMessage),
                                       storage =
                                         (case recordUsage MODEL_NAME inTok outTok (usage_stamp env)
                                                 (usage_now env) (write_ok env) st of
                                            Inl costError \<Rightarrow> st
                                          | Inr (stats, st') \<Rightarrow> st'),
                                       fetches = 1,
                                       usage_attempt = Some (MODEL_NAME, inTok, outTok)\<rparr>)))))))"

section \<open>Provider and key settings (storage.js)\<close>

definition getCurrentProvider :: "'n AsyncStorage \<Rightarrow> string" where
  "getCurrentProvider st =
     (case ai_provider st of
        Stored provider \<Rightarrow> if provider = [] then ''grok'' else provider
      | Missing \<Rightarrow> ''grok''
      | Unreadable \<Rightarrow> ''grok'')"

text \<open>\<^verbatim>\<open>apiKeys[provider] || null\<close>; nothing stored and a failed read give \<^verbatim>\<open>null\<close> too.\<close>

definition getApiKey :: "string \<Rightarrow> 'n AsyncStorage \<Rightarrow> string option" where
  "getApiKey provider st =
     (case api_keys st of
        Stored apiKeys \<Rightarrow>
          (case map_of apiKeys provider of
             Some k \<Rightarrow> if k = [] then None else Some k
           | None \<Rightarrow> None)
      | Missing \<Rightarrow> None
      | Unreadable \<Rightarrow> None)"

section \<open>The abstraction layer (aiService.js)\<close>

definition evaluateSentence ::
  "jsstring \<Rightarrow> jsstring \<Rightarrow> jsvalue \<Rightarrow> call_env \<Rightarrow> rat AsyncStorage \<Rightarrow> call_outcome" where
  "evaluateSentence verb tense userSentence env st =
     (let provider = getCurrentProvider st;
          apiKey = getApiKey provider st
      in case apiKey of
           None \<Rightarrow> \<lparr>result = Inl NoApiKey, storage = st, fetches = 0, usage_attempt = None\<rparr>
         | Some key \<Rightarrow>
             if provider = ''grok'' then grok_evaluateSentence verb tense userSentence key env st
             else \<lparr>result = Inl (UnknownProvider provider), storage = st, fetches = 0,
                   usage_attempt = None\<rparr>)"

section \<open>The submission (PracticeScreen.js, handleSubmit)\<close>

text \<open>
  What the user sees after a submission: one of the three alerts that end it early, the
  alert for a caught error, or the feedback.
\<close>

datatype submit_view =
    EmptySentence
  | PleaseWaitAlert "reason option"
  | BudgetAlert "reason option"
  | ErrorAlert error
  | ShowFeedback feedback

record submit_outcome =
  view :: submit_view
  limiter :: RateLimiter
  store :: "rat AsyncStorage"
  network_calls :: nat

text \<open>
  \<^verbatim>\<open>handleSubmit\<close> reads the clock in \<^verbatim>\<open>checkRateLimit\<close> (\<open>check_time\<close>) and again in
  \<^verbatim>\<open>recordRequest\<close> (\<open>record_time\<close>). The update of the practice counter that follows a
  successful evaluation writes a key none of these functions read, and is left out.
\<close>

definition handleSubmit ::
  "jsstring \<Rightarrow> jsstring \<Rightarrow> jsstring \<Rightarrow> int \<Rightarrow> int \<Rightarrow> call_env \<Rightarrow> RateLimiter \<Rightarrow> rat AsyncStorage
     \<Rightarrow> submit_outcome" where
  "handleSubmit verb tense userSentence check_time record_time env rl st =
     (if trim userSentence = [] then
        \<lparr>view = EmptySentence, limiter = rl, store = st, network_calls = 0\<rparr>
      else
        (let (rateCheck, rl1) = checkRateLimit check_time rl in
         if \<not> allowed rateCheck then
           \<lparr>view = PleaseWaitAlert (reason rateCheck), limiter = rl1, store = st, network_calls = 0\<rparr>
         else
           (let budgetLimits = getBudgetLimits st;
                budgetCheck = checkBudget budgetLimits st
            in if \<not> allowed budgetCheck then
                 \<lparr>view = BudgetAlert (reason budgetCheck), limiter = rl1, store = st,
                  network_calls = 0\<rparr>
               else
                 (let rl2 = recordRequest record_time rl1;
                      out = evaluateSentence verb tense (Str userSentence) env st
                  in \<lparr>view = (case result out of Inl e \<Rightarrow> ErrorAlert e | Inr f \<Rightarrow> ShowFeedback f),
                      limiter = rl2, store = storage out, network_calls = fetches out\<rparr>))))"

section \<open>Example environments\<close>

text \<open>
  Three environments for the worked examples: one whose network call is rejected, one
  whose answer carries no usage report, one whose report has the prompt count only.
\<close>

definition quiet_env :: call_env where
  "quiet_env = \<lparr>response = FetchRejected, usage_stamp = 0, usage_now = 0, write_ok = True\<rparr>"

definition silent_answer :: call_env where
  "silent_answer = \<lparr>response = HttpOk \<lparr>choices = Some [Some (of_ascii ''Tres bien'')], usage = None\<rparr>,
     usage_stamp = 5000, usage_now = 5000, write_ok = True\<rparr>"

definition counted_answer :: call_env where
  "counted_answer = \<lparr>response = HttpOk \<lparr>choices = Some [Some (of_ascii ''Tres bien'')],
       usage = Some \<lparr>prompt_tokens = Some 100, completion_tokens = None\<rparr>\<rparr>,
     usage_stamp = 5000, usage_now = 5000, write_ok = True\<rparr>"

section \<open>Rate limiter: properties\<close>






text \<open>
  Every state that a run of checks and records reaches satisfies the hypothesis, when
  no operation of the run reads the clock at \<open>0\<close>.
\<close>

lemma limiter_step_nonzero:
  assumes "lastRequestTime rl \<noteq> Some 0" and "op_time x \<noteq> 0"
  shows "lastRequestTime (limiter_step rl x) \<noteq> Some 0"
  using assms
  by (cases x) (simp_all add: checkRateLimit_def recordRequest_def Let_def)

lemma limiter_run_nonzero:
  assumes "list_all (\<lambda>x. op_time x \<noteq> 0) ops"
  shows "lastRequestTime (limiter_run ops) \<noteq> Some 0"
  using assms
proof (induction ops rule: rev_induct)
  case Nil
  then show ?case by (simp add: limiter_run_def new_RateLimiter_def)
next
  case (snoc x ops)
  then have "lastRequestTime (limiter_run ops) \<noteq> Some 0" and "op_time x \<noteq> 0"
    by simp_all
  then have "lastRequestTime (limiter_step (limiter_run ops) x) \<noteq> Some 0"
    by (rule limiter_step_nonzero)
  then show ?case by (simp add: limiter_run_def)
qed

text \<open>
  At the instant \<open>0\<close> itself the truthiness test takes the previous request for none:
  after a record at \<open>0\<close>, a check at \<open>1000\<close> is allowed where the reference function
  denies with wait \<open>1\<close>.
\<close>

lemma checkRateLimit_instant_zero:
  "result_view (fst (checkRateLimit 1000 (recordRequest 0 new_RateLimiter))) = (True, 0)
   \<and> checkRateLimit_spec 1000 (recordRequest 0 new_RateLimiter) = (False, 1)"
  by (simp add: checkRateLimit_def checkRateLimit_spec_def recordRequest_def new_RateLimiter_def
      delay_blocked_def truthy_time_def result_view_def Let_def
      MAX_REQUESTS_PER_MINUTE_def MAX_REQUESTS_PER_HOUR_def)

text \<open>
  C4, as stated: in every state reached by checks and records at increasing times, every
  retained timestamp lies within the hour before the latest operation. It fails:
  \<^verbatim>\<open>recordRequest\<close> never prunes, and a check denied by the delay gate returns before the
  pruning. After records at \<open>1000\<close> and \<open>3700000\<close> and a check at \<open>3700500\<close>, the
  timestamp \<open>1000\<close> is still retained.
\<close>

theorem limiter_within_hour_counterexample:
  "\<not> within_hour 3700500 (limiter_run [Record 1000, Record 3700000, Check 3700500])"
  by (simp add: within_hour_def limiter_run_def checkRateLimit_def recordRequest_def
      new_RateLimiter_def delay_blocked_def truthy_time_def MIN_DELAY_MS_def Let_def)

text \<open>
  C4, amended: immediately after a \<^verbatim>\<open>checkRateLimit\<close> call that gets past the
  minimum-delay gate, every retained timestamp lies within the hour before that call.
\<close>

theorem checkRateLimit_prunes_hour:
  assumes "\<not> delay_blocked now rl"
  shows "within_hour now (snd (checkRateLimit now rl))"
  using assms
  by (simp add: checkRateLimit_def within_hour_def Let_def list_all_iff)

theorem checkRateLimit_prunes_hour_witness:
  "\<not> delay_blocked 3702500 (limiter_run [Record 1000, Record 3700000, Check 3700500])
   \<and> within_hour 3702500
        (snd (checkRateLimit 3702500 (limiter_run [Record 1000, Record 3700000, Check 3700500])))
   \<and> requests (snd (checkRateLimit 3702500
        (limiter_run [Record 1000, Record 3700000, Check 3700500]))) = [3700000]"
proof -
  have nb: "\<not> delay_blocked 3702500 (limiter_run [Record 1000, Record 3700000, Check 3700500])"
    by (simp add: limiter_run_def checkRateLimit_def recordRequest_def
        new_RateLimiter_def delay_blocked_def truthy_time_def MIN_DELAY_MS_def Let_def)
  have rq: "requests (snd (checkRateLimit 3702500
        (limiter_run [Record 1000, Record 3700000, Check 3700500]))) = [3700000]"
    by (simp add: limiter_run_def checkRateLimit_def recordRequest_def
        new_RateLimiter_def delay_blocked_def truthy_time_def MIN_DELAY_MS_def Let_def)
  from nb checkRateLimit_prunes_hour [OF nb] rq show ?thesis by simp
qed

text \<open>What does not prune: a check stopped by the delay gate, and every record.\<close>

lemma checkRateLimit_blocked_keeps: "delay_blocked now rl \<Longrightarrow> snd (checkRateLimit now rl) = rl"
  by (simp add: checkRateLimit_def Let_def)

lemma recordRequest_appends: "requests (recordRequest now rl) = requests rl @ [now]"
  by (simp add: recordRequest_def)

section \<open>Cost tracking: properties\<close>

lemma cost_call_record: "cost (call_record num c) = call_cost num c"
  by (cases c) simp

lemma foldl_cost_records:
  "foldl (\<lambda>sum r. sum + cost r) acc (map (call_record num) cs)
     = foldl (+) acc (map (call_cost num) cs)"
  by (induction cs arbitrary: acc) (simp_all add: cost_call_record)

lemma ledger_inv_step:
  assumes "ledger_inv num st calls"
  shows "ledger_inv num (ledger_step num st c) (calls @ [c])"
proof (cases c)
  case (UsageCall mdl i out stamp now ok)
  from assms obtain s where s: "getUsageStats st = Some s" "ledger_of st = s"
    by (cases "cost_tracking st") (auto simp: ledger_inv_def getUsageStats_def ledger_of_def)
  show ?thesis
  proof (cases ok)
    case False
    with UsageCall s assms show ?thesis
      by (simp add: recordUsage_in_def Let_def ledger_inv_def)
  next
    case True
    let ?r = "call_record num c"
    let ?kept = "filter (\<lambda>r. timestamp r > now - 30 * 24 * 60 * 60 * 1000) (requests_log s @ [?r])"
    have sub: "subseq ?kept (map (call_record num) (filter call_ok calls) @ [?r])"
    proof -
      have "subseq (requests_log s @ [?r]) (map (call_record num) (filter call_ok calls) @ [?r])"
        using assms s by (simp add: ledger_inv_def)
      moreover have "subseq ?kept (requests_log s @ [?r])"
        by (rule subseq_filter_left)
      ultimately show ?thesis by (rule subseq_order.trans [rotated])
    qed
    with True UsageCall s assms show ?thesis
      by (simp add: recordUsage_in_def Let_def ledger_inv_def ledger_of_def getUsageStats_def)
  qed
qed

lemma ledger_inv_run:
  assumes "cost_tracking st0 = Missing"
  shows "ledger_inv num (ledger_run num st0 calls) calls"
proof (induction calls rule: rev_induct)
  case Nil
  from assms show ?case
    by (simp add: ledger_inv_def ledger_run_def ledger_of_def getUsageStats_def empty_stats_def)
next
  case (snoc c calls)
  from ledger_inv_step [OF snoc.IH, of c] show ?case
    by (simp add: ledger_run_def)
qed

lemmas ledger_eval =
  ledger_run_def recordUsage_def recordUsage_in_def getUsageStats_def
  ledger_of_def retained_cost_def fresh_storage_def empty_stats_def calculateCost_def
  exact_def PRICING_def grok_4_pricing_def grok_4_fast_pricing_def
  window_cost_def Let_def

text \<open>
  C2, as stated: after every \<^verbatim>\<open>recordUsage\<close>, \<open>totalCost\<close> is the sum of the costs of the
  retained records. It fails once a record is evicted: \<open>totalCost\<close> accumulates over
  the lifetime of the ledger, and records older than 30 days leave the list. Two
  calls of one million input tokens on \<^verbatim>\<open>grok-4\<close>, 30 days apart: each costs
  \<open>1 * 3 + 0 * 15 = 3\<close>, which the doubles compute exactly; the first record is evicted
  by the second call, \<open>totalCost\<close> is 6, the retained sum is 3.
\<close>

theorem totalCost_retained_counterexample:
  "totalCost (ledger_of (ledger_run exact fresh_storage
       [UsageCall ''grok-4'' 1000000 0 0 0 True,
        UsageCall ''grok-4'' 1000000 0 2592000000 2592000000 True])) = 6
   \<and> retained_cost (ledger_of (ledger_run exact fresh_storage
       [UsageCall ''grok-4'' 1000000 0 0 0 True,
        UsageCall ''grok-4'' 1000000 0 2592000000 2592000000 True])) = 3"
  by (simp add: ledger_eval)

text \<open>
  C2, amended: after any history of \<^verbatim>\<open>recordUsage\<close> calls on a ledger that started
  empty, \<open>totalCost\<close> is the running sum of the costs of all records ever written, added
  in the order of the calls by the addition the code uses; and as long as no record has
  been evicted, it is equal to the sum that the code's \<^verbatim>\<open>reduce\<close> computes over the
  cost fields of the retained records. This is proved for every type of numbers and
  every addition, multiplication and division on it, with no law assumed of them: it
  holds of the rounding arithmetic of the doubles as it does of the rationals.
\<close>

theorem totalCost_all_written:
  assumes "cost_tracking st0 = Missing"
  shows "totalCost (ledger_of (ledger_run num st0 calls))
           = foldl (+) 0 (map (call_cost num) (filter call_ok calls))
         \<and> (length (requests_log (ledger_of (ledger_run num st0 calls)))
               = length (filter call_ok calls)
             \<longrightarrow> retained_cost (ledger_of (ledger_run num st0 calls))
                   = totalCost (ledger_of (ledger_run num st0 calls)))"
proof -
  let ?s = "ledger_of (ledger_run num st0 calls)"
  let ?written = "map (call_record num) (filter call_ok calls)"
  from ledger_inv_run [OF assms, of num calls]
  have total: "totalCost ?s = foldl (+) 0 (map (call_cost num) (filter call_ok calls))"
    and sub: "subseq (requests_log ?s) ?written"
    by (simp_all add: ledger_inv_def)
  have "retained_cost ?s = totalCost ?s"
    if "length (requests_log ?s) = length (filter call_ok calls)"
  proof -
    from that have "length (requests_log ?s) = length ?written" by simp
    with sub have "requests_log ?s = ?written" by (rule subseq_same_length)
    then have "retained_cost ?s = foldl (\<lambda>sum r. sum + cost r) 0 ?written"
      by (simp only: retained_cost_def)
    also have "\<dots> = foldl (+) 0 (map (call_cost num) (filter call_ok calls))"
      by (rule foldl_cost_records)
    finally show ?thesis by (simp only: total)
  qed
  with total show ?thesis by blast
qed

theorem totalCost_all_written_witness:
  "cost_tracking (fresh_storage :: rat AsyncStorage) = Missing
   \<and> totalCost (ledger_of (ledger_run exact fresh_storage
       [UsageCall ''grok-4'' 1000000 0 0 0 True, UsageCall ''grok-4'' 1000000 0 5000 5000 True]))
     = 6
   \<and> length (requests_log (ledger_of (ledger_run exact fresh_storage
       [UsageCall ''grok-4'' 1000000 0 0 0 True, UsageCall ''grok-4'' 1000000 0 5000 5000 True])))
     = 2
   \<and> retained_cost (ledger_of (ledger_run exact fresh_storage
       [UsageCall ''grok-4'' 1000000 0 0 0 True, UsageCall ''grok-4'' 1000000 0 5000 5000 True]))
     = 6"
proof -
  have fresh: "cost_tracking (fresh_storage :: rat AsyncStorage) = Missing"
    by (simp add: fresh_storage_def)
  have len: "length (requests_log (ledger_of (ledger_run exact fresh_storage
       [UsageCall ''grok-4'' 1000000 0 0 0 True, UsageCall ''grok-4'' 1000000 0 5000 5000 True])))
     = 2"
    by (simp add: ledger_eval)
  from totalCost_all_written [OF fresh, of exact
      "[UsageCall ''grok-4'' 1000000 0 0 0 True, UsageCall ''grok-4'' 1000000 0 5000 5000 True]"]
    fresh len
  show ?thesis
    by (simp add: calculateCost_def exact_def PRICING_def grok_4_pricing_def Let_def)
qed

text \<open>
  C3, as stated: a failed read of the ledger reaches the caller of \<^verbatim>\<open>checkBudget\<close> as an
  error and never becomes an allowed decision. It fails: \<^verbatim>\<open>getUsageStats\<close> catches the
  failure and returns \<^verbatim>\<open>null\<close>, and \<^verbatim>\<open>checkBudget\<close> answers \<^verbatim>\<open>null\<close> statistics with
  \<^verbatim>\<open>{ allowed: true, reason: null }\<close>.
\<close>

theorem checkBudget_read_failure_counterexample:
  "getUsageStats (fresh_storage\<lparr>cost_tracking := Unreadable\<rparr>) = None
   \<and> allowed (checkBudget (getBudgetLimits (fresh_storage\<lparr>cost_tracking := Unreadable\<rparr>))
        (fresh_storage\<lparr>cost_tracking := Unreadable\<rparr>)) = True"
  by (simp add: getUsageStats_def checkBudget_def budget_ok_def fresh_storage_def Let_def)

text \<open>
  C3, amended: when reading the persisted ledger fails, \<^verbatim>\<open>getUsageStats\<close> returns
  \<^verbatim>\<open>null\<close> and \<^verbatim>\<open>checkBudget\<close> returns the allowed decision with no reason, whatever
  the limits: the gate fails open and no error reaches the caller.
\<close>

theorem checkBudget_read_failure_allows:
  assumes "cost_tracking st = Unreadable"
  shows "getUsageStats st = None
         \<and> allowed (checkBudget budget st) = True
         \<and> reason (checkBudget budget st) = None"
  using assms by (simp add: getUsageStats_def checkBudget_def budget_ok_def Let_def)

theorem checkBudget_read_failure_allows_witness:
  "cost_tracking (fresh_storage\<lparr>cost_tracking := Unreadable\<rparr>) = Unreadable
   \<and> allowed (checkBudget None (fresh_storage\<lparr>cost_tracking := Unreadable\<rparr>)) = True
   \<and> reason (checkBudget None (fresh_storage\<lparr>cost_tracking := Unreadable\<rparr>)) = None"
proof -
  have unreadable: "cost_tracking (fresh_storage\<lparr>cost_tracking := Unreadable\<rparr>) = Unreadable"
    by simp
  from checkBudget_read_failure_allows [OF unreadable, of None] unreadable
  show ?thesis by simp
qed

text \<open>
  C8: with the ledger read, \<^verbatim>\<open>checkBudget\<close> called with the configured limits \<open>d\<close>,
  \<open>w\<close>, \<open>m\<close> tests the daily cost against \<open>d\<close>, then the weekly cost against \<open>w\<close>, then
  the monthly cost against \<open>m\<close>, each with \<open>\<ge>\<close>, and reports the first period breached,
  with its cost and its limit; a daily cost at or above \<open>d\<close> is reported as \<open>Daily\<close>
  whatever the weekly and monthly costs are. Called with no limits, it tests against
  1, 5 and 15.
\<close>

theorem checkBudget_first_breach:
  assumes "getUsageStats st = Some stats"
  shows "(dailyCost stats \<ge> d \<longrightarrow>
            checkBudget (Some \<lparr>daily = Some d, weekly = Some w, monthly = Some m\<rparr>) st
              = \<lparr>allowed = False, reason = Some (BudgetLimitReached Daily (dailyCost stats) d),
                 currentCost = Some (dailyCost stats), limit = Some d, period = Some Daily\<rparr>)
         \<and> (dailyCost stats < d \<and> weeklyCost stats \<ge> w \<longrightarrow>
            checkBudget (Some \<lparr>daily = Some d, weekly = Some w, monthly = Some m\<rparr>) st
              = \<lparr>allowed = False, reason = Some (BudgetLimitReached Weekly (weeklyCost stats) w),
                 currentCost = Some (weeklyCost stats), limit = Some w, period = Some Weekly\<rparr>)
         \<and> (dailyCost stats < d \<and> weeklyCost stats < w \<and> monthlyCost stats \<ge> m \<longrightarrow>
            checkBudget (Some \<lparr>daily = Some d, weekly = Some w, monthly = Some m\<rparr>) st
              = \<lparr>allowed = False, reason = Some (BudgetLimitReached Monthly (monthlyCost stats) m),
                 currentCost = Some (monthlyCost stats), limit = Some m, period = Some Monthly\<rparr>)
         \<and> (dailyCost stats < d \<and> weeklyCost stats < w \<and> monthlyCost stats < m \<longrightarrow>
            checkBudget (Some \<lparr>daily = Some d, weekly = Some w, monthly = Some m\<rparr>) st
              = \<lparr>allowed = True, reason = None, currentCost = None, limit = None, period = None\<rparr>)
         \<and> checkBudget None st
              = checkBudget (Some \<lparr>daily = Some 1, weekly = Some 5, monthly = Some 15\<rparr>) st"
  using assms
  by (simp add: checkBudget_def spread_budget_def defaultBudget_def budget_denied_def
      budget_ok_def Let_def)

theorem checkBudget_first_breach_witness:
  "getUsageStats (fresh_storage\<lparr>cost_tracking := Stored \<lparr>totalRequests = 9, totalCost = 20,
       dailyCost = 2, weeklyCost = 6, monthlyCost = 20, requests_log = []\<rparr>\<rparr>)
     = Some \<lparr>totalRequests = 9, totalCost = 20,
       dailyCost = 2 :: rat, weeklyCost = 6, monthlyCost = 20, requests_log = []\<rparr>
   \<and> checkBudget (Some \<lparr>daily = Some 2, weekly = Some 3, monthly = Some 4\<rparr>)
        (fresh_storage\<lparr>cost_tracking := Stored \<lparr>totalRequests = 9, totalCost = 20,
           dailyCost = 2, weeklyCost = 6, monthlyCost = 20, requests_log = []\<rparr>\<rparr>)
     = \<lparr>allowed = False, reason = Some (BudgetLimitReached Daily 2 2),
        currentCost = Some 2, limit = Some 2, period = Some Daily\<rparr>
   \<and> checkBudget (Some \<lparr>daily = Some 10, weekly = Some 6, monthly = Some 4\<rparr>)
        (fresh_storage\<lparr>cost_tracking := Stored \<lparr>totalRequests = 9, totalCost = 20,
           dailyCost = 2, weeklyCost = 6, monthlyCost = 20, requests_log = []\<rparr>\<rparr>)
     = \<lparr>allowed = False, reason = Some (BudgetLimitReached Weekly 6 6),
        currentCost = Some 6, limit = Some 6, period = Some Weekly\<rparr>
   \<and> checkBudget (Some \<lparr>daily = Some 10, weekly = Some 10, monthly = Some 20\<rparr>)
        (fresh_storage\<lparr>cost_tracking := Stored \<lparr>totalRequests = 9, totalCost = 20,
           dailyCost = 2, weeklyCost = 6, monthlyCost = 20, requests_log = []\<rparr>\<rparr>)
     = \<lparr>allowed = False, reason = Some (BudgetLimitReached Monthly 20 20),
        currentCost = Some 20, limit = Some 20, period = Some Monthly\<rparr>
   \<and> checkBudget (Some \<lparr>daily = Some 10, weekly = Some 10, monthly = Some 30\<rparr>)
        (fresh_storage\<lparr>cost_tracking := Stored \<lparr>totalRequests = 9, totalCost = 20,
           dailyCost = 2, weeklyCost = 6, monthlyCost = 20, requests_log = []\<rparr>\<rparr>)
     = \<lparr>allowed = True, reason = None, currentCost = None, limit = None, period = None\<rparr>"
proof -
  let ?stats = "\<lparr>totalRequests = 9, totalCost = 20,
       dailyCost = 2 :: rat, weeklyCost = 6, monthlyCost = 20, requests_log = []\<rparr>"
  let ?st = "fresh_storage\<lparr>cost_tracking := Stored ?stats\<rparr>"
  have read: "getUsageStats ?st = Some ?stats"
    by (simp add: getUsageStats_def)
  from checkBudget_first_breach [OF read, of 2 3 4]
    checkBudget_first_breach [OF read, of 10 6 4]
    checkBudget_first_breach [OF read, of 10 10 20]
    checkBudget_first_breach [OF read, of 10 10 30]
    read
  show ?thesis by simp
qed

text \<open>A key the configured limits lack is tested against its default.\<close>

lemma checkBudget_missing_keys:
  "checkBudget (Some b) st
     = checkBudget (Some \<lparr>daily = Some (case daily b of Some v \<Rightarrow> v | None \<Rightarrow> 1),
                          weekly = Some (case weekly b of Some v \<Rightarrow> v | None \<Rightarrow> 5),
                          monthly = Some (case monthly b of Some v \<Rightarrow> v | None \<Rightarrow> 15)\<rparr>) st"
  by (cases "daily b"; cases "weekly b"; cases "monthly b")
    (simp_all add: checkBudget_def spread_budget_def defaultBudget_def Let_def)

section \<open>Regular expressions: properties of the matcher\<close>

lemma lit_match_length: "lit_match l s \<Longrightarrow> length l \<le> length s"
  by (induction l s rule: lit_match.induct) auto

lemma lit_match_append: "lit_match l x \<Longrightarrow> lit_match l (x @ y)"
  by (induction l x rule: lit_match.induct) auto

lemma lit_match_stop:
  "list_all (\<lambda>p. canon p \<noteq> canon c) l \<Longrightarrow> lit_match l (x @ c # y) = lit_match l x"
  by (induction l x rule: lit_match.induct) auto

lemma set_rematch_Seq:
  "set (rematch (Seq a b) s) = {n + m | n m. n \<in> set (rematch a s) \<and> m \<in> set (rematch b (drop n s))}"
  by auto

lemma rematch_le: "n \<in> set (rematch r s) \<Longrightarrow> n \<le> length s"
proof (induction r arbitrary: n s)
  case (Lit l)
  then show ?case by (auto split: if_splits dest: lit_match_length)
next
  case SpacePlus
  have "length (takeWhile is_space s) \<le> length s" by (rule length_takeWhile_le)
  with SpacePlus show ?case by auto
next
  case SpaceStar
  have "length (takeWhile is_space s) \<le> length s" by (rule length_takeWhile_le)
  with SpaceStar show ?case by auto
next
  case (Alt a b)
  then show ?case by auto
next
  case (Seq a b)
  from Seq.prems obtain i j where ij: "n = i + j" "i \<in> set (rematch a s)" "j \<in> set (rematch b (drop i s))"
    unfolding set_rematch_Seq by blast
  from Seq.IH(1) [OF ij(2)] Seq.IH(2) [OF ij(3)] ij(1) show ?case by simp
next
  case (Opt a)
  then show ?case by auto
qed

lemma takeWhile_length_mono: "length (takeWhile P x) \<le> length (takeWhile P (x @ y))"
  by (induction x) auto

lemma rematch_mono: "set (rematch r x) \<subseteq> set (rematch r (x @ y))"
proof (induction r arbitrary: x)
  case (Lit l)
  then show ?case by (auto dest: lit_match_append)
next
  case SpacePlus
  from takeWhile_length_mono [of is_space x y] show ?case by auto
next
  case SpaceStar
  from takeWhile_length_mono [of is_space x y] show ?case by auto
next
  case (Alt a b)
  then show ?case by auto
next
  case (Seq a b)
  show ?case
  proof
    fix n
    assume "n \<in> set (rematch (Seq a b) x)"
    then obtain i j where ij: "n = i + j" "i \<in> set (rematch a x)" "j \<in> set (rematch b (drop i x))"
      unfolding set_rematch_Seq by blast
    from ij(2) have ile: "i \<le> length x" by (rule rematch_le)
    from ij(2) Seq.IH(1) have "i \<in> set (rematch a (x @ y))" by blast
    moreover from ij(3) Seq.IH(2) [of "drop i x"] ile have "j \<in> set (rematch b (drop i (x @ y)))"
      by auto
    ultimately show "n \<in> set (rematch (Seq a b) (x @ y))"
      unfolding set_rematch_Seq using ij(1) by blast
  qed
next
  case (Opt a)
  then show ?case by auto
qed

lemma takeWhile_stop: "\<not> P c \<Longrightarrow> takeWhile P (x @ c # y) = takeWhile P x"
  by (induction x) auto

lemma rematch_stop:
  "\<not> is_space c \<Longrightarrow> avoids c r \<Longrightarrow> rematch r (x @ c # y) = rematch r x"
proof (induction r arbitrary: x)
  case (Lit l)
  then show ?case by (simp add: lit_match_stop)
next
  case SpacePlus
  then show ?case by (simp add: takeWhile_stop)
next
  case SpaceStar
  then show ?case by (simp add: takeWhile_stop)
next
  case (Alt a b)
  then show ?case by simp
next
  case (Seq a b)
  then have a: "rematch a (x @ c # y) = rematch a x" by simp
  have m: "map (\<lambda>n. map ((+) n) (rematch b (drop n (x @ c # y)))) (rematch a x)
        = map (\<lambda>n. map ((+) n) (rematch b (drop n x))) (rematch a x)"
  proof (rule map_cong [OF refl])
    fix n
    assume "n \<in> set (rematch a x)"
    then have "n \<le> length x" by (rule rematch_le)
    then have "drop n (x @ c # y) = drop n x @ c # y" by simp
    with Seq show "map ((+) n) (rematch b (drop n (x @ c # y))) = map ((+) n) (rematch b (drop n x))"
      by simp
  qed
  show ?case by (simp only: rematch.simps a m)
next
  case (Opt a)
  then show ?case by simp
qed

lemma rematch_nonempty: "\<not> nullable r \<Longrightarrow> 0 \<notin> set (rematch r s)"
proof (induction r arbitrary: s)
  case (Seq a b)
  show ?case
  proof
    assume "0 \<in> set (rematch (Seq a b) s)"
    then obtain i j where ij: "0 = i + j" "i \<in> set (rematch a s)" "j \<in> set (rematch b (drop i s))"
      unfolding set_rematch_Seq by blast
    then have "0 \<in> set (rematch a s)" "0 \<in> set (rematch b s)" by auto
    with Seq show False by auto
  qed
qed (auto split: if_splits)

lemma re_test_iff: "re_test r s = (\<exists>i \<le> length s. rematch r (drop i s) \<noteq> [])"
proof (induction s)
  case Nil
  then show ?case by simp
next
  case (Cons c cs)
  show ?case
  proof
    assume "re_test r (c # cs)"
    then consider "rematch r (c # cs) \<noteq> []" | "re_test r cs" by (auto split: if_splits)
    then show "\<exists>i \<le> length (c # cs). rematch r (drop i (c # cs)) \<noteq> []"
    proof cases
      case 1
      then have "rematch r (drop 0 (c # cs)) \<noteq> []" by simp
      then show ?thesis by blast
    next
      case 2
      with Cons obtain i where "i \<le> length cs" "rematch r (drop i cs) \<noteq> []" by blast
      then have "Suc i \<le> length (c # cs)" "rematch r (drop (Suc i) (c # cs)) \<noteq> []" by simp_all
      then show ?thesis by blast
    qed
  next
    assume "\<exists>i \<le> length (c # cs). rematch r (drop i (c # cs)) \<noteq> []"
    then obtain i where i: "i \<le> length (c # cs)" "rematch r (drop i (c # cs)) \<noteq> []" by blast
    show "re_test r (c # cs)"
    proof (cases i)
      case 0
      with i show ?thesis by simp
    next
      case (Suc j)
      with i have "j \<le> length cs" "rematch r (drop j cs) \<noteq> []" by simp_all
      with Cons have "re_test r cs" by blast
      then show ?thesis by simp
    qed
  qed
qed

lemma replace_all_no_match: "\<not> re_test r s \<Longrightarrow> replace_all r rep s = s"
  by (induction s) (auto split: if_splits list.splits)

section \<open>Security: the patterns and the marker\<close>

lemmas pat_defs =
  pat_ignore_def pat_system_prompt_def pat_you_are_def pat_forget_def
  pat_new_instructions_def pat_role_system_def pat_bracket_system_def pat_assistant_mode_def

lemma redacted_units: "redacted = [91, 114, 101, 100, 97, 99, 116, 101, 100, 93]"
  by (simp add: redacted_def of_ascii_def)

lemma not_space_bracket: "\<not> is_space 91"
  by (simp add: is_space_def)

lemma patterns_not_nullable: "r \<in> set suspiciousPatterns \<Longrightarrow> \<not> nullable r"
  by (auto simp: suspiciousPatterns_def pat_defs of_ascii_def)

lemma patterns_avoid_bracket:
  "r \<in> set suspiciousPatterns \<Longrightarrow> r = pat_bracket_system \<or> avoids 91 r"
  by (auto simp: suspiciousPatterns_def pat_defs of_ascii_def canon_def)

lemma lit_match_stop_tail:
  "x \<noteq> [] \<Longrightarrow> list_all (\<lambda>p. canon p \<noteq> canon c) (tl l) \<Longrightarrow>
   lit_match l (x @ c # y) = lit_match l x"
  by (cases l; cases x) (simp_all add: lit_match_stop)

lemma patterns_stop_bracket:
  assumes "r \<in> set suspiciousPatterns" and "x \<noteq> []"
  shows "rematch r (x @ 91 # y) = rematch r x"
proof -
  from patterns_avoid_bracket [OF assms(1)] show ?thesis
  proof
    assume "r = pat_bracket_system"
    with assms(2) show ?thesis
      by (simp add: pat_bracket_system_def of_ascii_def lit_match_stop_tail canon_def)
  next
    assume "avoids 91 r"
    with not_space_bracket show ?thesis by (rule rematch_stop)
  qed
qed

lemma marker_inert_ignore: "re_test pat_ignore (redacted @ v) = re_test pat_ignore v"
  by (simp add: pat_ignore_def of_ascii_def redacted_units canon_def)

lemma marker_inert_system_prompt: "re_test pat_system_prompt (redacted @ v) = re_test pat_system_prompt v"
  by (simp add: pat_system_prompt_def of_ascii_def redacted_units canon_def)

lemma marker_inert_you_are: "re_test pat_you_are (redacted @ v) = re_test pat_you_are v"
  by (simp add: pat_you_are_def of_ascii_def redacted_units canon_def)

lemma marker_inert_forget: "re_test pat_forget (redacted @ v) = re_test pat_forget v"
  by (simp add: pat_forget_def of_ascii_def redacted_units canon_def)

lemma marker_inert_new_instructions: "re_test pat_new_instructions (redacted @ v) = re_test pat_new_instructions v"
  by (simp add: pat_new_instructions_def of_ascii_def redacted_units canon_def)

lemma marker_inert_role_system: "re_test pat_role_system (redacted @ v) = re_test pat_role_system v"
  by (simp add: pat_role_system_def of_ascii_def redacted_units canon_def)

lemma marker_inert_bracket_system: "re_test pat_bracket_system (redacted @ v) = re_test pat_bracket_system v"
  by (simp add: pat_bracket_system_def of_ascii_def redacted_units canon_def)

lemma marker_inert_assistant_mode: "re_test pat_assistant_mode (redacted @ v) = re_test pat_assistant_mode v"
  by (simp add: pat_assistant_mode_def of_ascii_def redacted_units canon_def)

lemmas marker_inert_each =
  marker_inert_ignore marker_inert_system_prompt marker_inert_you_are marker_inert_forget
  marker_inert_new_instructions marker_inert_role_system marker_inert_bracket_system marker_inert_assistant_mode

lemma marker_inert:
  assumes "r \<in> set suspiciousPatterns"
  shows "re_test r (redacted @ v) = re_test r v"
proof -
  from assms consider "r = pat_ignore" | "r = pat_system_prompt" | "r = pat_you_are"
    | "r = pat_forget" | "r = pat_new_instructions" | "r = pat_role_system"
    | "r = pat_bracket_system" | "r = pat_assistant_mode"
    unfolding suspiciousPatterns_def by auto
  then show ?thesis by cases (simp_all only: marker_inert_each)
qed

lemma re_test_Nil_patterns: "r \<in> set suspiciousPatterns \<Longrightarrow> \<not> re_test r []"
  using patterns_not_nullable [of r] rematch_nonempty [of r "[]"] rematch_le [of _ r "[]"]
  by (cases "rematch r []") auto

lemma re_test_around_marker:
  assumes "r \<in> set suspiciousPatterns" and "\<not> re_test r u" and "\<not> re_test r v"
  shows "\<not> re_test r (u @ redacted @ v)"
  using assms(2)
proof (induction u)
  case Nil
  from assms(1,3) show ?case by (simp add: marker_inert)
next
  case (Cons c u)
  from Cons.prems have here: "rematch r (c # u) = []" and rest: "\<not> re_test r u"
    by (auto split: if_splits)
  have "rematch r ((c # u) @ 91 # (tl redacted @ v)) = rematch r (c # u)"
    by (rule patterns_stop_bracket [OF assms(1)]) simp
  with here have "rematch r (c # u @ redacted @ v) = []"
    by (simp add: redacted_units)
  with Cons.IH [OF rest] show ?case by simp
qed

lemma re_test_prefix: "\<not> re_test r (u @ w) \<Longrightarrow> \<not> re_test r u"
proof (induction u)
  case Nil
  have "set (rematch r []) \<subseteq> set (rematch r ([] @ w))" by (rule rematch_mono)
  moreover from Nil have "rematch r w = []"
    by (cases w) (auto split: if_splits)
  ultimately show ?case by simp
next
  case (Cons c u)
  from Cons.prems have here: "rematch r (c # u @ w) = []" and rest: "\<not> re_test r (u @ w)"
    by (auto split: if_splits)
  have "set (rematch r (c # u)) \<subseteq> set (rematch r ((c # u) @ w))" by (rule rematch_mono)
  with here have "rematch r (c # u) = []" by simp
  with Cons.IH [OF rest] show ?case by simp
qed

lemma re_test_suffix: "\<not> re_test r (u @ w) \<Longrightarrow> \<not> re_test r w"
  by (induction u) (auto split: if_splits)

lemma re_test_drop: "\<not> re_test r s \<Longrightarrow> \<not> re_test r (drop k s)"
  using re_test_suffix [of r "take k s" "drop k s"] by simp

text \<open>Where the first replacement happens.\<close>

lemma replace_all_cases:
  assumes "\<not> nullable r"
  shows "(\<not> re_test r s \<and> replace_all r rep s = s)
         \<or> (\<exists>u w n. s = u @ w \<and> \<not> re_test r u \<and> 0 < n \<and> n \<le> length w
               \<and> replace_all r rep s = u @ rep @ replace_all r rep (drop n w))"
proof (induction s)
  case Nil
  have "rematch r [] = []"
  proof (cases "rematch r []")
    case (Cons n ns)
    then have "n \<in> set (rematch r [])" by simp
    with rematch_le [of n r "[]"] rematch_nonempty [OF assms, of "[]"] show ?thesis by auto
  qed simp
  then show ?case by simp
next
  case (Cons c cs)
  show ?case
  proof (cases "rematch r (c # cs)")
    case Nil
    from Cons.IH show ?thesis
    proof (elim disjE conjE exE)
      assume "\<not> re_test r cs" "replace_all r rep cs = cs"
      with Nil show ?thesis by simp
    next
      fix u w n
      assume d: "cs = u @ w" "\<not> re_test r u" "0 < n" "n \<le> length w"
        "replace_all r rep cs = u @ rep @ replace_all r rep (drop n w)"
      have "set (rematch r (c # u)) \<subseteq> set (rematch r ((c # u) @ w))" by (rule rematch_mono)
      with Nil d(1) have "rematch r (c # u) = []" by simp
      with d(2) have "\<not> re_test r (c # u)" by simp
      moreover from Nil d have "replace_all r rep (c # cs) = (c # u) @ rep @ replace_all r rep (drop n w)"
        by simp
      moreover from d(1) have "c # cs = (c # u) @ w" by simp
      ultimately show ?thesis using d(3,4) by blast
    qed
  next
    case (Cons n ns)
    then have mem: "n \<in> set (rematch r (c # cs))" by simp
    with rematch_nonempty [OF assms, of "c # cs"] have "0 < n" by (cases n) auto
    moreover from mem have "n \<le> length (c # cs)" by (rule rematch_le)
    moreover from Cons \<open>0 < n\<close> have "replace_all r rep (c # cs) = [] @ rep @ replace_all r rep (drop n (c # cs))"
      by simp
    moreover have "\<not> re_test r []"
    proof -
      have "rematch r [] = []"
      proof (cases "rematch r []")
        case (Cons k ks)
        then have "k \<in> set (rematch r [])" by simp
        with rematch_le [of k r "[]"] rematch_nonempty [OF assms, of "[]"] show ?thesis by auto
      qed simp
      then show ?thesis by simp
    qed
    moreover have "c # cs = [] @ (c # cs)" by simp
    ultimately show ?thesis by blast
  qed
qed

lemma replace_all_free:
  assumes r: "r \<in> set suspiciousPatterns" and r': "r' \<in> set suspiciousPatterns"
    and "r' = r \<or> \<not> re_test r' s"
  shows "\<not> re_test r' (replace_all r redacted s)"
  using assms(3)
proof (induction s rule: length_induct)
  case (1 s)
  note nn = patterns_not_nullable [OF r]
  from replace_all_cases [OF nn, of s redacted]
  consider (unchanged) "\<not> re_test r s" "replace_all r redacted s = s"
    | (replaced) u w n where "s = u @ w" "\<not> re_test r u" "0 < n" "n \<le> length w"
        "replace_all r redacted s = u @ redacted @ replace_all r redacted (drop n w)"
    by blast
  then show ?case
  proof cases
    case unchanged
    from "1.prems" show ?thesis
    proof
      assume "r' = r"
      with unchanged show ?thesis by simp
    next
      assume "\<not> re_test r' s"
      with unchanged show ?thesis by simp
    qed
  next
    case replaced
    have free_u: "\<not> re_test r' u"
      using "1.prems"
    proof
      assume "r' = r"
      with replaced(2) show ?thesis by simp
    next
      assume "\<not> re_test r' s"
      with replaced(1) show ?thesis by (simp add: re_test_prefix)
    qed
    have pre: "r' = r \<or> \<not> re_test r' (drop n w)"
      using "1.prems"
    proof
      assume "r' = r"
      then show ?thesis ..
    next
      assume "\<not> re_test r' s"
      with replaced(1) have "\<not> re_test r' w" by (simp add: re_test_suffix)
      then have "\<not> re_test r' (drop n w)" by (rule re_test_drop)
      then show ?thesis ..
    qed
    from replaced(1,3,4) have shorter: "length (drop n w) < length s" by simp
    from "1.IH" have "length (drop n w) < length s \<longrightarrow>
        r' = r \<or> \<not> re_test r' (drop n w) \<longrightarrow>
        \<not> re_test r' (replace_all r redacted (drop n w))" ..
    with shorter pre have "\<not> re_test r' (replace_all r redacted (drop n w))"
      by simp
    with free_u have "\<not> re_test r' (u @ redacted @ replace_all r redacted (drop n w))"
      by (rule re_test_around_marker [OF r'])
    with replaced(5) show ?thesis by simp
  qed
qed

lemma fold_replace_free:
  assumes "set ps \<subseteq> set suspiciousPatterns" and "r' \<in> set suspiciousPatterns"
    and "r' \<in> set ps \<or> \<not> re_test r' s"
  shows "\<not> re_test r' (fold (\<lambda>pattern s. replace_all pattern redacted s) ps s)"
  using assms(1,3)
proof (induction ps arbitrary: s)
  case Nil
  then show ?case by simp
next
  case (Cons p ps)
  from Cons.prems(1) have p: "p \<in> set suspiciousPatterns" and ps: "set ps \<subseteq> set suspiciousPatterns"
    by simp_all
  have "r' \<in> set ps \<or> \<not> re_test r' (replace_all p redacted s)"
  proof (cases "r' = p \<or> \<not> re_test r' s")
    case True
    then have "\<not> re_test r' (replace_all p redacted s)"
      by (rule replace_all_free [OF p assms(2)])
    then show ?thesis ..
  next
    case False
    with Cons.prems(2) show ?thesis by auto
  qed
  from Cons.IH [OF ps this] show ?case by simp
qed

section \<open>Security: the shape of a cleaned text\<close>

lemma space_units: "of_ascii '' '' = [32]"
  by (simp add: of_ascii_def)

lemma is_space_32: "is_space 32"
  by (simp add: is_space_def)

lemma collapse_Nil: "replace_all SpacePlus rep [] = []"
  by simp

lemma rematch_SpacePlus_Cons:
  "rematch SpacePlus (c # cs) =
     (if is_space c then rev [1 ..< Suc (Suc (length (takeWhile is_space cs)))] else [])"
  by simp

lemma collapse_Cons:
  "replace_all SpacePlus rep (c # cs) =
     (if is_space c then rep @ replace_all SpacePlus rep (dropWhile is_space cs)
      else c # replace_all SpacePlus rep cs)"
proof (cases "is_space c")
  case False
  then show ?thesis by simp
next
  case True
  let ?n = "length (takeWhile is_space cs)"
  have "rematch SpacePlus (c # cs) = Suc ?n # rev [1 ..< Suc ?n]"
    using True by simp
  moreover have "drop ?n cs = dropWhile is_space cs"
    by (rule dropWhile_eq_drop [symmetric])
  ultimately show ?thesis using True by simp
qed

lemma tidy_tl: "tidy (c # cs) \<Longrightarrow> tidy cs"
  by (cases cs) simp_all

lemma tidy_drop: "tidy s \<Longrightarrow> tidy (drop n s)"
proof (induction n arbitrary: s)
  case 0
  then show ?case by simp
next
  case (Suc n)
  then show ?case by (cases s) (auto dest: tidy_tl)
qed

lemma tidy_Cons: "\<not> is_space c \<Longrightarrow> tidy s \<Longrightarrow> tidy (c # s)"
  by (cases s) simp_all

lemma tidy_last: "tidy s \<Longrightarrow> s \<noteq> [] \<Longrightarrow> \<not> is_space (last s)"
  by (induction s rule: tidy.induct) simp_all

lemma tidy_collapse_id: "tidy s \<Longrightarrow> replace_all SpacePlus [32] s = s"
proof (induction s rule: tidy.induct)
  case 1
  then show ?case by simp
next
  case (2 c)
  then show ?case by simp
next
  case (3 c d cs)
  from "3.prems" have t: "tidy (d # cs)" by simp
  show ?case
  proof (cases "is_space c")
    case True
    with "3.prems" have "c = 32" "\<not> is_space d" by simp_all
    with True "3.IH" [OF t] show ?thesis
      by (simp only: collapse_Cons if_True dropWhile.simps if_False append_Cons append_Nil)
  next
    case False
    with "3.IH" [OF t] show ?thesis
      by (simp only: collapse_Cons if_False)
  qed
qed

lemma normal_trim_id: "normal s \<Longrightarrow> trim s = s"
proof (cases s)
  case Nil
  then show ?thesis by (simp add: trim_def)
next
  case (Cons c cs)
  assume n: "normal s"
  with Cons have "\<not> is_space c" by (simp add: normal_def)
  with Cons have front: "dropWhile is_space s = s" by simp
  from Cons have "s \<noteq> []" by simp
  then obtain b l where bl: "s = b @ [l]"
    by (metis rev_exhaust)
  from n Cons have "\<not> is_space (last s)" using tidy_last [of s] by (simp add: normal_def)
  with bl have "\<not> is_space l" by simp
  with bl have "dropWhile is_space (rev s) = rev s" by simp
  with front show ?thesis by (simp add: trim_def)
qed

lemma last_dropWhile: "dropWhile P xs \<noteq> [] \<Longrightarrow> last (dropWhile P xs) = last xs"
  by (induction xs) (auto split: if_splits)

lemma trim_ends:
  "trim raw = [] \<or> (\<not> is_space (hd (trim raw)) \<and> \<not> is_space (last (trim raw)))"
proof (cases "trim raw = []")
  case True
  then show ?thesis ..
next
  case False
  let ?a = "dropWhile is_space raw"
  let ?b = "dropWhile is_space (rev ?a)"
  from False have b: "?b \<noteq> []" by (simp add: trim_def)
  then have "rev ?a \<noteq> []" by (metis dropWhile.simps(1))
  then have a: "?a \<noteq> []" by simp
  from b have "\<not> is_space (hd ?b)" by (rule hd_dropWhile)
  with b have l: "\<not> is_space (last (trim raw))" by (simp add: trim_def last_rev)
  from a have ha: "\<not> is_space (hd ?a)" by (rule hd_dropWhile)
  from b have "last ?b = last (rev ?a)" by (rule last_dropWhile)
  with a have "last ?b = hd ?a" by (simp add: last_rev)
  with b ha have "\<not> is_space (hd (trim raw))" by (simp add: trim_def hd_rev)
  with l show ?thesis by simp
qed

lemma collapse_tidy:
  assumes "s = [] \<or> \<not> is_space (last s)"
  shows "tidy (replace_all SpacePlus [32] s)
         \<and> (case s of [] \<Rightarrow> True
             | c # cs \<Rightarrow> (case replace_all SpacePlus [32] s of [] \<Rightarrow> False
                          | h # t \<Rightarrow> if is_space c then h = 32 else h = c))"
  using assms
proof (induction s rule: length_induct)
  case (1 s)
  show ?case
  proof (cases s)
    case Nil
    then show ?thesis by simp
  next
    case (Cons c cs)
    show ?thesis
    proof (cases "is_space c")
      case False
      show ?thesis
      proof (cases cs)
        case Nil
        with Cons False show ?thesis by (simp add: collapse_Cons)
      next
        case (Cons d ds)
        with \<open>s = c # cs\<close> "1.prems" have "cs = [] \<or> \<not> is_space (last cs)" by simp
        moreover from \<open>s = c # cs\<close> have "length cs < length s" by simp
        ultimately have ih: "tidy (replace_all SpacePlus [32] cs)
            \<and> (case cs of [] \<Rightarrow> True
                | c # cs' \<Rightarrow> (case replace_all SpacePlus [32] cs of [] \<Rightarrow> False
                          | h # t \<Rightarrow> if is_space c then h = 32 else h = c))"
          using "1.IH" by blast
        with Cons obtain h t where ht: "replace_all SpacePlus [32] cs = h # t"
          by (cases "replace_all SpacePlus [32] cs") simp_all
        with ih False \<open>s = c # cs\<close> show ?thesis
          by (simp add: collapse_Cons)
      qed
    next
      case True
      let ?ys = "dropWhile is_space cs"
      from Cons True "1.prems" have cs: "cs \<noteq> []" "\<not> is_space (last cs)"
        by (auto split: if_splits)
      then obtain b l where bl: "cs = b @ [l]" "\<not> is_space l"
        by (metis rev_exhaust last_snoc)
      then have ys: "?ys \<noteq> []" "last ?ys = l"
        by (simp_all add: dropWhile_append3)
      from ys(1) have hys: "\<not> is_space (hd ?ys)" by (rule hd_dropWhile)
      from ys bl have "?ys = [] \<or> \<not> is_space (last ?ys)" by simp
      moreover have "length ?ys < length s"
        using Cons length_dropWhile_le [of is_space cs] by simp
      ultimately have ih: "tidy (replace_all SpacePlus [32] ?ys)
            \<and> (case ?ys of [] \<Rightarrow> True
                | c # cs' \<Rightarrow> (case replace_all SpacePlus [32] ?ys of [] \<Rightarrow> False
                          | h # t \<Rightarrow> if is_space c then h = 32 else h = c))"
        using "1.IH" by blast
      from ys(1) obtain y ys' where y: "?ys = y # ys'" by (cases ?ys) simp_all
      with hys have ny: "\<not> is_space y" by simp
      from ih y ny obtain t where t: "replace_all SpacePlus [32] ?ys = y # t"
        by (cases "replace_all SpacePlus [32] ?ys") (simp_all split: if_splits)
      from ih t ny have "tidy (32 # y # t)" by (simp add: is_space_32)
      moreover from True t have "replace_all SpacePlus [32] (c # cs) = 32 # y # t"
        by (simp only: collapse_Cons if_True append_Cons append_Nil)
      ultimately show ?thesis using Cons True by simp
    qed
  qed
qed

lemma normal_collapse_trim: "normal (replace_all SpacePlus [32] (trim raw))"
proof (cases "trim raw")
  case Nil
  then show ?thesis by (simp add: normal_def)
next
  case (Cons c cs)
  with trim_ends [of raw] have ends: "\<not> is_space c" "\<not> is_space (last (trim raw))" by simp_all
  then have "trim raw = [] \<or> \<not> is_space (last (trim raw))" by simp
  from collapse_tidy [OF this] Cons ends(1) show ?thesis
    by (cases "replace_all SpacePlus [32] (trim raw)") (simp_all add: normal_def)
qed

lemma tidy_marker: "tidy s \<Longrightarrow> tidy (redacted @ s)"
  by (simp add: redacted_units tidy_Cons is_space_def)

lemma replace_tidy:
  assumes nn: "\<not> nullable r" and "tidy s"
  shows "tidy (replace_all r redacted s)
         \<and> (case s of [] \<Rightarrow> replace_all r redacted s = []
             | c # cs \<Rightarrow> (case replace_all r redacted s of [] \<Rightarrow> False
                          | h # t \<Rightarrow> h = c \<or> h = 91))"
  using assms(2)
proof (induction s rule: length_induct)
  case (1 s)
  have empty: "rematch r [] = []"
  proof (cases "rematch r []")
    case (Cons k ks)
    then have "k \<in> set (rematch r [])" by simp
    with rematch_le [of k r "[]"] rematch_nonempty [OF nn, of "[]"] show ?thesis by auto
  qed simp
  show ?case
  proof (cases s)
    case Nil
    with empty show ?thesis by simp
  next
    case (Cons c cs)
    show ?thesis
    proof (cases "rematch r (c # cs)")
      case Nil
      then have out: "replace_all r redacted (c # cs) = c # replace_all r redacted cs" by simp
      from "1.prems" Cons have tcs: "tidy cs" by (auto dest: tidy_tl)
      moreover from Cons have "length cs < length s" by simp
      ultimately have ih: "tidy (replace_all r redacted cs)
         \<and> (case cs of [] \<Rightarrow> replace_all r redacted cs = []
             | c # cs' \<Rightarrow> (case replace_all r redacted cs of [] \<Rightarrow> False
                          | h # t \<Rightarrow> h = c \<or> h = 91))"
        using "1.IH" by blast
      show ?thesis
      proof (cases cs)
        case Nil
        with ih "1.prems" Cons out show ?thesis by simp
      next
        case (Cons d ds)
        with ih obtain h t where ht: "replace_all r redacted cs = h # t" "h = d \<or> h = 91"
          by (cases "replace_all r redacted cs") simp_all
        from "1.prems" \<open>s = c # cs\<close> Cons have "if is_space c then c = 32 \<and> \<not> is_space d else True"
          by simp
        with ht(2) have "if is_space c then c = 32 \<and> \<not> is_space h else True"
          by (auto simp: not_space_bracket split: if_splits)
        with ih ht(1) have "tidy (c # h # t)" by simp
        with out ht(1) \<open>s = c # cs\<close> show ?thesis by simp
      qed
    next
      case (Cons n ns)
      then have mem: "n \<in> set (rematch r (c # cs))" by simp
      with rematch_nonempty [OF nn, of "c # cs"] have pos: "0 < n" by (cases n) auto
      with Cons have out: "replace_all r redacted (c # cs)
          = redacted @ replace_all r redacted (drop n (c # cs))" by simp
      from "1.prems" \<open>s = c # cs\<close> have "tidy (drop n (c # cs))" by (simp only: tidy_drop)
      moreover from pos \<open>s = c # cs\<close> have "length (drop n (c # cs)) < length s" by simp
      ultimately have "tidy (replace_all r redacted (drop n (c # cs)))"
        using "1.IH" by blast
      then have "tidy (redacted @ replace_all r redacted (drop n (c # cs)))" by (rule tidy_marker)
      with out have A: "tidy (replace_all r redacted (c # cs))" by (simp only:)
      from out have B: "\<exists>t. replace_all r redacted (c # cs) = 91 # t"
        by (simp only: redacted_units append_Cons) blast
      from A B \<open>s = c # cs\<close> show ?thesis
        by (auto simp del: replace_all.simps)
    qed
  qed
qed

lemma replace_normal:
  assumes "\<not> nullable r" and "normal s"
  shows "normal (replace_all r redacted s)"
proof (cases s)
  case Nil
  with replace_tidy [OF assms(1), of s] assms(2) show ?thesis by (simp add: normal_def)
next
  case (Cons c cs)
  with assms(2) have "tidy s" "\<not> is_space c" by (simp_all add: normal_def)
  with replace_tidy [OF assms(1), of s] Cons show ?thesis
    by (cases "replace_all r redacted s") (auto simp: normal_def not_space_bracket)
qed

lemma fold_replace_normal:
  assumes "set ps \<subseteq> set suspiciousPatterns" and "normal s"
  shows "normal (fold (\<lambda>pattern s. replace_all pattern redacted s) ps s)"
  using assms
proof (induction ps arbitrary: s)
  case Nil
  then show ?case by simp
next
  case (Cons p ps)
  from Cons.prems(1) have "\<not> nullable p" by (simp add: patterns_not_nullable)
  from replace_normal [OF this Cons.prems(2)] Cons.prems(1) Cons.IH show ?case by simp
qed

lemma normal_cleaned: "normal (cleaned raw)"
  using normal_collapse_trim [of raw] fold_replace_normal [of suspiciousPatterns]
  by (simp add: cleaned_def Let_def space_units)

lemma cleaned_free:
  assumes "r \<in> set suspiciousPatterns"
  shows "\<not> re_test r (cleaned raw)"
proof (cases "list_ex (\<lambda>pattern. re_test pattern (replace_all SpacePlus [32] (trim raw))) suspiciousPatterns")
  case True
  then have "cleaned raw = fold (\<lambda>pattern s. replace_all pattern redacted s) suspiciousPatterns
      (replace_all SpacePlus [32] (trim raw))"
    by (simp add: cleaned_def Let_def space_units)
  moreover have "\<not> re_test r (fold (\<lambda>pattern s. replace_all pattern redacted s) suspiciousPatterns
      (replace_all SpacePlus [32] (trim raw)))"
    by (rule fold_replace_free) (use assms in simp_all)
  ultimately show ?thesis by simp
next
  case False
  then have "cleaned raw = replace_all SpacePlus [32] (trim raw)"
    by (simp add: cleaned_def Let_def space_units)
  with False assms show ?thesis by (auto simp: list_ex_iff)
qed

lemma cleaned_fixpoint: "cleaned (cleaned raw) = cleaned raw"
proof -
  let ?out = "cleaned raw"
  have n: "normal ?out" by (rule normal_cleaned)
  then have "trim ?out = ?out" by (rule normal_trim_id)
  moreover from n have "replace_all SpacePlus [32] ?out = ?out"
    by (simp add: normal_def tidy_collapse_id)
  moreover have "\<not> list_ex (\<lambda>pattern. re_test pattern ?out) suspiciousPatterns"
    by (simp add: list_ex_iff cleaned_free)
  ultimately show ?thesis
    by (simp add: cleaned_def [of "cleaned raw"] Let_def space_units)
qed

section \<open>Security: idempotence, the length limit, the sentence test\<close>

text \<open>
  C6: whenever \<^verbatim>\<open>sanitizeUserInput\<close> accepts a string, applying it to its own output
  succeeds and returns that output unchanged.
\<close>

theorem sanitize_idempotent:
  assumes "sanitizeUserInput (Str t) = Inr out"
  shows "sanitizeUserInput (Str out) = Inr out"
proof -
  from assms have out: "out = cleaned t" and len: "\<not> length out > MAX_LENGTH" "\<not> length out < MIN_LENGTH"
    by (auto simp: sanitizeUserInput_def Let_def split: if_splits)
  from len(2) have "out \<noteq> []" by (auto simp: MIN_LENGTH_def)
  moreover from out have "cleaned out = out" by (simp add: cleaned_fixpoint)
  ultimately show ?thesis using len
    by (simp add: sanitizeUserInput_def Let_def)
qed

lemmas sanitize_eval =
  sanitizeUserInput_def cleaned_def trim_def of_ascii_def is_space_def canon_def redacted_def
  suspiciousPatterns_def pat_defs MAX_LENGTH_def MIN_LENGTH_def Let_def

theorem sanitize_idempotent_witness:
  "sanitizeUserInput (Str (of_ascii '' Je  mange [system] '')) = Inr (of_ascii ''Je mange [redacted]'')
   \<and> sanitizeUserInput (Str (of_ascii ''Je mange [redacted]'')) = Inr (of_ascii ''Je mange [redacted]'')"
proof -
  have first: "sanitizeUserInput (Str (of_ascii '' Je  mange [system] ''))
      = Inr (of_ascii ''Je mange [redacted]'')"
    by (simp add: sanitize_eval)
  from first sanitize_idempotent [OF first] show ?thesis by simp
qed

text \<open>
  The input of C9: \<^verbatim>\<open>[system]\<close> followed by any number of \<^verbatim>\<open>x\<close>. Nothing in it is
  whitespace, only the seventh pattern matches, once, and the text grows by two.
\<close>

lemma xs_free:
  assumes "r \<in> set suspiciousPatterns" and "list_all (\<lambda>c. c = 120) xs"
  shows "\<not> re_test r xs"
  using assms(2)
proof (induction xs)
  case Nil
  from assms(1) show ?case by (rule re_test_Nil_patterns)
next
  case (Cons c xs)
  then have c: "c = 120" and rest: "\<not> re_test r xs" by simp_all
  from assms(1) consider "r = pat_ignore" | "r = pat_system_prompt" | "r = pat_you_are"
    | "r = pat_forget" | "r = pat_new_instructions" | "r = pat_role_system"
    | "r = pat_bracket_system" | "r = pat_assistant_mode"
    unfolding suspiciousPatterns_def by auto
  then have "rematch r (120 # xs) = []"
    by cases (simp_all add: pat_defs of_ascii_def canon_def)
  with c rest show ?case by simp
qed

lemma xs_tidy: "list_all (\<lambda>c. c = 120) xs \<Longrightarrow> tidy xs"
  by (induction xs rule: tidy.induct) (simp_all add: is_space_def)

lemma bracket_units: "of_ascii ''[system]'' = [91, 115, 121, 115, 116, 101, 109, 93]"
  by (simp add: of_ascii_def)

lemma cleaned_bracket_xs:
  assumes xs: "list_all (\<lambda>c. c = 120) xs"
  shows "cleaned (of_ascii ''[system]'' @ xs) = redacted @ xs"
proof -
  let ?raw = "of_ascii ''[system]'' @ xs"
  note free = xs_free [OF _ xs]
  have "tidy ?raw"
    using xs_tidy [OF xs] by (simp add: bracket_units tidy_Cons is_space_def)
  then have n: "normal ?raw" by (simp add: normal_def bracket_units is_space_def)
  then have base: "replace_all SpacePlus [32] (trim ?raw) = ?raw"
    by (simp add: normal_trim_id tidy_collapse_id normal_def)
  have hit: "re_test pat_bracket_system ?raw"
    by (simp add: pat_bracket_system_def bracket_units canon_def)
  have unchanged: "replace_all r redacted ?raw = ?raw"
    if "r \<in> {pat_ignore, pat_system_prompt, pat_you_are, pat_forget, pat_new_instructions,
              pat_role_system}" for r
  proof (rule replace_all_no_match)
    from that have "r \<in> set suspiciousPatterns" by (auto simp: suspiciousPatterns_def)
    then have "\<not> re_test r xs" by (rule free)
    with that show "\<not> re_test r ?raw"
      by (auto simp: bracket_units pat_defs of_ascii_def canon_def is_space_def)
  qed
  have "\<not> re_test pat_bracket_system xs" by (rule free) (simp add: suspiciousPatterns_def)
  then have bracket: "replace_all pat_bracket_system redacted ?raw = redacted @ xs"
    by (simp add: pat_bracket_system_def bracket_units canon_def replace_all_no_match)
  have "\<not> re_test pat_assistant_mode xs" by (rule free) (simp add: suspiciousPatterns_def)
  then have "\<not> re_test pat_assistant_mode (redacted @ xs)"
    by (simp add: marker_inert_assistant_mode)
  then have last: "replace_all pat_assistant_mode redacted (redacted @ xs) = redacted @ xs"
    by (rule replace_all_no_match)
  have "list_ex (\<lambda>pattern. re_test pattern ?raw) suspiciousPatterns"
    using hit by (simp add: suspiciousPatterns_def)
  then have "cleaned ?raw
      = fold (\<lambda>pattern s. replace_all pattern redacted s) suspiciousPatterns ?raw"
    using base by (simp add: cleaned_def space_units Let_def)
  also have "\<dots> = redacted @ xs"
    by (simp add: suspiciousPatterns_def unchanged bracket last)
  finally show ?thesis .
qed

text \<open>
  C9: some raw input of at most 500 code units fails with the too-long error. The
  marker \<^verbatim>\<open>[redacted]\<close> has 10 code units and replaces the 8 of \<^verbatim>\<open>[system]\<close>, and the
  maximum is tested on the text after the replacements: \<^verbatim>\<open>[system]\<close> followed by 492
  times \<^verbatim>\<open>x\<close> has 500 code units and is cleaned to 502.
\<close>

theorem sanitize_too_long_after_redaction:
  "length (of_ascii ''[system]'') = 8 \<and> length redacted = 10
   \<and> (\<exists>raw. length raw \<le> 500 \<and> length (cleaned raw) > 500
          \<and> sanitizeUserInput (Str raw) = Inl TooLong)"
proof -
  let ?raw = "of_ascii ''[system]'' @ replicate 492 120"
  have "list_all (\<lambda>c. c = 120) (replicate 492 (120 :: nat))"
    by (simp add: list_all_iff)
  then have c: "cleaned ?raw = redacted @ replicate 492 120" by (rule cleaned_bracket_xs)
  have "length ?raw \<le> 500" by (simp add: bracket_units)
  moreover from c have "length (cleaned ?raw) > 500" by (simp add: redacted_units)
  moreover from c have "sanitizeUserInput (Str ?raw) = Inl TooLong"
    by (simp add: sanitizeUserInput_def Let_def MAX_LENGTH_def redacted_units bracket_units)
  ultimately have "\<exists>raw. length raw \<le> 500 \<and> length (cleaned raw) > 500
      \<and> sanitizeUserInput (Str raw) = Inl TooLong"
    by blast
  then show ?thesis by (simp add: bracket_units redacted_units)
qed

text \<open>
  The ratio test without the division: the quotient of two lengths is under \<open>3/10\<close>
  exactly when the divisor is not zero and ten times the count is under three times the
  length.
\<close>

lemma js_less_div:
  "js_less (js_div a b) (3 / 10) = (b \<noteq> 0 \<and> 10 * a < 3 * b)"
proof (cases "b = 0")
  case True
  then show ?thesis by (simp add: js_div_def)
next
  case False
  then have "(of_nat a / of_nat b < (3 / 10 :: rat)) = (of_nat (10 * a) < (of_nat (3 * b) :: rat))"
    by (simp add: field_simps)
  also have "\<dots> = (10 * a < 3 * b)" by (simp only: of_nat_less_iff)
  finally show ?thesis using False by (simp add: js_div_def)
qed

lemma array_length_or_empty:
  "array_length (or_empty (match_class cls s)) = Inr (length (filter cls s))"
  by (simp add: array_length_def or_empty_def match_class_def Let_def)

lemma specialCharRatio_value:
  "specialCharRatio input = Inr (js_div (length (filter is_special input)) (length input))"
  by (simp add: specialCharRatio_def array_length_or_empty)

text \<open>
  C10: on every string \<^verbatim>\<open>validateFrenchSentence\<close> returns a boolean and throws nothing.
  The one step of it that can throw is the read of \<^verbatim>\<open>length\<close> on the result of
  \<^verbatim>\<open>match\<close>, which is \<^verbatim>\<open>null\<close> when nothing matches; the \<^verbatim>\<open>|| []\<close> in front of it
  replaces the \<^verbatim>\<open>null\<close>. On the empty string the ratio is \<open>0 / 0\<close>, not-a-number;
  the comparison with it is false and the result is false.
\<close>

theorem validateFrenchSentence_total:
  "(\<exists>b. validateFrenchSentence input = Inr b)
   \<and> validateFrenchSentence input
       = Inr (list_ex is_letter input
              \<and> 10 * length (filter is_special input) < 3 * length input)
   \<and> specialCharRatio [] = Inr NaN
   \<and> js_less NaN (3 / 10) = False
   \<and> validateFrenchSentence [] = Inr False"
proof -
  have closed: "validateFrenchSentence input
       = Inr (list_ex is_letter input
              \<and> 10 * length (filter is_special input) < 3 * length input)"
    by (auto simp: validateFrenchSentence_def specialCharRatio_value js_less_div
        Let_def list_ex_iff list_all_iff)
  moreover have "specialCharRatio [] = Inr NaN"
    by (simp add: specialCharRatio_value js_div_def)
  moreover have "validateFrenchSentence [] = Inr False"
    by (simp add: validateFrenchSentence_def specialCharRatio_value js_div_def)
  ultimately show ?thesis by simp
qed

section \<open>The provider and the submission: properties\<close>

lemma allowed_check_prunes:
  "allowed (fst (checkRateLimit t rl)) \<Longrightarrow>
   snd (checkRateLimit t rl) = rl\<lparr>requests := filter (\<lambda>time. time > t - 60 * 60 * 1000) (requests rl)\<rparr>"
  by (simp add: checkRateLimit_def Let_def split: if_splits)

text \<open>
  C1, as stated: with no credential stored for the active provider, a submission fails
  with the missing-key error before \<^verbatim>\<open>recordRequest\<close> is invoked, and leaves the rate
  limiter as it was. It fails: \<^verbatim>\<open>handleSubmit\<close> calls \<^verbatim>\<open>recordRequest\<close> before
  \<^verbatim>\<open>evaluateSentence\<close> looks for the key. On a new limiter and an empty store, the
  submission of \<^verbatim>\<open>Je mange\<close> ends in the missing-key error with the limiter holding the
  timestamp \<open>1001\<close>.
\<close>

theorem no_key_limiter_counterexample:
  "getApiKey (getCurrentProvider fresh_storage) fresh_storage = None
   \<and> view (handleSubmit (of_ascii ''manger'') (of_ascii ''Present'') (of_ascii ''Je mange'')
        1000 1001 quiet_env new_RateLimiter fresh_storage) = ErrorAlert NoApiKey
   \<and> limiter (handleSubmit (of_ascii ''manger'') (of_ascii ''Present'') (of_ascii ''Je mange'')
        1000 1001 quiet_env new_RateLimiter fresh_storage)
      = \<lparr>requests = [1001], lastRequestTime = Some 1001\<rparr>
   \<and> new_RateLimiter = \<lparr>requests = [], lastRequestTime = None\<rparr>"
  by (simp add: handleSubmit_def evaluateSentence_def getApiKey_def getCurrentProvider_def
      fresh_storage_def new_RateLimiter_def checkRateLimit_def delay_blocked_def recordRequest_def
      checkBudget_def getBudgetLimits_def getUsageStats_def empty_stats_def spread_budget_def
      defaultBudget_def budget_ok_def budget_denied_def trim_def of_ascii_def is_space_def Let_def
      MAX_REQUESTS_PER_MINUTE_def MAX_REQUESTS_PER_HOUR_def)

text \<open>
  C1, amended: with no credential stored for the active provider, a submission attempts
  no network call and leaves the store as it was; when it gets past the empty-input
  test, the rate limit and the budget gate, it fails with the missing-key error after
  \<^verbatim>\<open>recordRequest\<close> has run: the limiter then holds the timestamps younger than one
  hour with the time of the record appended, and that time is the last request time.
\<close>

theorem no_key_submission:
  assumes "getApiKey (getCurrentProvider st) st = None"
  shows "network_calls (handleSubmit verb tense userSentence check_time record_time env rl st) = 0
         \<and> store (handleSubmit verb tense userSentence check_time record_time env rl st) = st
         \<and> (trim userSentence \<noteq> [] \<and> allowed (fst (checkRateLimit check_time rl))
              \<and> allowed (checkBudget (getBudgetLimits st) st) \<longrightarrow>
            view (handleSubmit verb tense userSentence check_time record_time env rl st)
              = ErrorAlert NoApiKey
            \<and> requests (limiter (handleSubmit verb tense userSentence check_time record_time
                  env rl st))
              = filter (\<lambda>time. time > check_time - 60 * 60 * 1000) (requests rl) @ [record_time]
            \<and> lastRequestTime (limiter (handleSubmit verb tense userSentence check_time
                  record_time env rl st))
              = Some record_time)"
proof -
  let ?out = "handleSubmit verb tense userSentence check_time record_time env rl st"
  from assms have quiet: "network_calls ?out = 0 \<and> store ?out = st"
    by (simp add: handleSubmit_def evaluateSentence_def Let_def case_prod_beta)
  have "view ?out = ErrorAlert NoApiKey
        \<and> requests (limiter ?out)
          = filter (\<lambda>time. time > check_time - 60 * 60 * 1000) (requests rl) @ [record_time]
        \<and> lastRequestTime (limiter ?out) = Some record_time"
    if gates: "trim userSentence \<noteq> []" "allowed (fst (checkRateLimit check_time rl))"
      "allowed (checkBudget (getBudgetLimits st) st)"
  proof -
    from assms gates have "view ?out = ErrorAlert NoApiKey"
      and "limiter ?out = recordRequest record_time (snd (checkRateLimit check_time rl))"
      by (simp_all add: handleSubmit_def evaluateSentence_def Let_def case_prod_beta)
    with allowed_check_prunes [OF gates(2)] show ?thesis
      by (simp add: recordRequest_def)
  qed
  with quiet show ?thesis by blast
qed

theorem no_key_submission_witness:
  "getApiKey (getCurrentProvider fresh_storage) fresh_storage = None
   \<and> trim (of_ascii ''Je mange'') \<noteq> []
   \<and> allowed (fst (checkRateLimit 7000 (recordRequest 1000 new_RateLimiter)))
   \<and> allowed (checkBudget (getBudgetLimits fresh_storage) fresh_storage)
   \<and> network_calls (handleSubmit (of_ascii ''manger'') (of_ascii ''Present'') (of_ascii ''Je mange'')
        7000 7001 quiet_env (recordRequest 1000 new_RateLimiter) fresh_storage) = 0
   \<and> view (handleSubmit (of_ascii ''manger'') (of_ascii ''Present'') (of_ascii ''Je mange'')
        7000 7001 quiet_env (recordRequest 1000 new_RateLimiter) fresh_storage)
      = ErrorAlert NoApiKey
   \<and> requests (limiter (handleSubmit (of_ascii ''manger'') (of_ascii ''Present'')
        (of_ascii ''Je mange'') 7000 7001 quiet_env (recordRequest 1000 new_RateLimiter)
        fresh_storage)) = [1000, 7001]"
proof -
  have key: "getApiKey (getCurrentProvider fresh_storage) fresh_storage = None"
    by (simp add: getApiKey_def fresh_storage_def)
  have nonempty: "trim (of_ascii ''Je mange'') \<noteq> []"
    by (simp add: trim_def of_ascii_def is_space_def)
  have rate: "allowed (fst (checkRateLimit 7000 (recordRequest 1000 new_RateLimiter)))"
    by (simp add: checkRateLimit_def recordRequest_def new_RateLimiter_def delay_blocked_def
        truthy_time_def MIN_DELAY_MS_def MAX_REQUESTS_PER_MINUTE_def MAX_REQUESTS_PER_HOUR_def
        Let_def)
  have budget: "allowed (checkBudget (getBudgetLimits fresh_storage) fresh_storage)"
    by (simp add: checkBudget_def getBudgetLimits_def getUsageStats_def fresh_storage_def
        empty_stats_def spread_budget_def defaultBudget_def budget_ok_def Let_def)
  from no_key_submission [OF key, of "of_ascii ''manger''" "of_ascii ''Present''"
      "of_ascii ''Je mange''" 7000 7001 quiet_env "recordRequest 1000 new_RateLimiter"]
    key nonempty rate budget
  show ?thesis by (simp add: recordRequest_def new_RateLimiter_def)
qed

text \<open>
  The sentence of the worked examples is accepted as it is, and \<^verbatim>\<open>estimateTokens\<close> is a
  division by seven.
\<close>

lemma pomme_clean:
  "sanitizeUserInput (Str (of_ascii ''Je mange une pomme'')) = Inr (of_ascii ''Je mange une pomme'')"
  by (simp add: sanitize_eval)

lemma pomme_valid: "validateFrenchSentence (of_ascii ''Je mange une pomme'') = Inr True"
  by (simp add: validateFrenchSentence_def specialCharRatio_def match_class_def js_div_def
      array_length_def or_empty_def
      is_special_def is_letter_def is_space_def accented_lower_def accented_upper_def
      of_ascii_def Let_def)

lemma estimateTokens_div: "estimateTokens text = (2 * length text + 6) div 7"
proof -
  let ?n = "int (length text)"
  have "(of_nat (length text) / (35 / 10 :: rat)) = of_int (2 * ?n) / of_int 7"
    by simp
  then have "\<lceil>of_nat (length text) / (35 / 10 :: rat)\<rceil> = - (- (2 * ?n) div 7)"
    by (simp only: ceiling_divide_eq_div)
  also have "\<dots> = (2 * ?n + 6) div 7" by linarith
  finally show ?thesis
    by (simp add: estimateTokens_def nat_div_distrib nat_add_distrib nat_mult_distrib)
qed

lemma grok_success:
  assumes "sanitizeUserInput userSentence = Inr clean" and "validateFrenchSentence clean = Inr True"
    and "response env = HttpOk data" and "choices data = Some (Some aiMessage # others)"
    and "aiMessage \<noteq> []"
  shows "grok_evaluateSentence verb tense userSentence apiKey env st =
      (case usage data of
         None \<Rightarrow> \<lparr>result = Inr (parseAIResponse aiMessage), storage = st, fetches = 1,
                   usage_attempt = None\<rparr>
       | Some u \<Rightarrow>
           \<lparr>result = Inr (parseAIResponse aiMessage),
            storage =
              (case recordUsage MODEL_NAME
                      (token_count (prompt_tokens u) (buildPrompt verb tense clean))
                      (token_count (completion_tokens u) aiMessage)
                      (usage_stamp env) (usage_now env) (write_ok env) st of
                 Inl costError \<Rightarrow> st
               | Inr (stats, st') \<Rightarrow> st'),
            fetches = 1,
            usage_attempt = Some (MODEL_NAME,
              token_count (prompt_tokens u) (buildPrompt verb tense clean),
              token_count (completion_tokens u) aiMessage)\<rparr>)"
  using assms
  by (simp add: grok_evaluateSentence_def first_content_def Let_def split: option.split)

text \<open>
  C5, as stated: every successful provider response appends a usage record, with
  estimated counts when the usage report is absent. It fails where the report is absent:
  the recording sits under \<^verbatim>\<open>if (usage)\<close>, so an answer without a usage object returns
  its feedback with no \<^verbatim>\<open>recordUsage\<close> call and an unchanged store.
\<close>

theorem usage_absent_counterexample:
  "result (grok_evaluateSentence (of_ascii ''manger'') (of_ascii ''Present'')
       (Str (of_ascii ''Je mange une pomme'')) ''key'' silent_answer fresh_storage)
     = Inr (Feedback (of_ascii ''Tres bien''))
   \<and> usage_attempt (grok_evaluateSentence (of_ascii ''manger'') (of_ascii ''Present'')
       (Str (of_ascii ''Je mange une pomme'')) ''key'' silent_answer fresh_storage) = None
   \<and> storage (grok_evaluateSentence (of_ascii ''manger'') (of_ascii ''Present'')
       (Str (of_ascii ''Je mange une pomme'')) ''key'' silent_answer fresh_storage) = fresh_storage"
proof -
  have "response silent_answer = HttpOk \<lparr>choices = Some [Some (of_ascii ''Tres bien'')], usage = None\<rparr>"
    by (simp add: silent_answer_def)
  from grok_success [OF pomme_clean pomme_valid this, of "of_ascii ''Tres bien''" "[]"]
  show ?thesis by (simp add: of_ascii_def parseAIResponse_def)
qed

text \<open>
  C5, amended: for a successful provider response that carries a usage object,
  \<^verbatim>\<open>recordUsage\<close> is called once with the counts the provider reported, a count that is
  missing or zero being replaced by \<^verbatim>\<open>estimateTokens\<close> of the outbound prompt (input) or
  of the returned text (output); the store afterwards is the one \<^verbatim>\<open>recordUsage\<close> leaves,
  or the old one when \<^verbatim>\<open>recordUsage\<close> fails, and the feedback is returned either way.
  When the usage object is absent no ledger update is attempted.
\<close>

theorem usage_recorded_when_reported:
  assumes "sanitizeUserInput userSentence = Inr clean" and "validateFrenchSentence clean = Inr True"
    and "response env = HttpOk data" and "choices data = Some (Some aiMessage # others)"
    and "aiMessage \<noteq> []"
  shows "result (grok_evaluateSentence verb tense userSentence apiKey env st)
           = Inr (parseAIResponse aiMessage)
         \<and> (usage data = None \<longrightarrow>
              usage_attempt (grok_evaluateSentence verb tense userSentence apiKey env st) = None
              \<and> storage (grok_evaluateSentence verb tense userSentence apiKey env st) = st)
         \<and> (\<forall>u. usage data = Some u \<longrightarrow>
              usage_attempt (grok_evaluateSentence verb tense userSentence apiKey env st)
                = Some (MODEL_NAME,
                    token_count (prompt_tokens u) (buildPrompt verb tense clean),
                    token_count (completion_tokens u) aiMessage)
              \<and> storage (grok_evaluateSentence verb tense userSentence apiKey env st)
                = (case recordUsage MODEL_NAME
                      (token_count (prompt_tokens u) (buildPrompt verb tense clean))
                      (token_count (completion_tokens u) aiMessage)
                      (usage_stamp env) (usage_now env) (write_ok env) st of
                     Inl costError \<Rightarrow> st
                   | Inr (stats, st') \<Rightarrow> st'))
         \<and> (\<forall>n text. n \<noteq> 0 \<longrightarrow> token_count (Some n) text = n)
         \<and> (\<forall>text. token_count None text = estimateTokens text
                  \<and> token_count (Some 0) text = estimateTokens text)"
  using grok_success [OF assms, of verb tense apiKey st]
  by (cases "usage data") (simp_all add: token_count_def)

theorem usage_recorded_when_reported_witness:
  "sanitizeUserInput (Str (of_ascii ''Je mange une pomme'')) = Inr (of_ascii ''Je mange une pomme'')
   \<and> validateFrenchSentence (of_ascii ''Je mange une pomme'') = Inr True
   \<and> usage_attempt (grok_evaluateSentence (of_ascii ''manger'') (of_ascii ''Present'')
       (Str (of_ascii ''Je mange une pomme'')) ''key'' counted_answer fresh_storage)
     = Some (MODEL_NAME, 100, 3)
   \<and> totalRequests (ledger_of (storage (grok_evaluateSentence (of_ascii ''manger'')
       (of_ascii ''Present'') (Str (of_ascii ''Je mange une pomme'')) ''key'' counted_answer
       fresh_storage))) = 1"
proof -
  have r: "response counted_answer = HttpOk \<lparr>choices = Some [Some (of_ascii ''Tres bien'')],
       usage = Some \<lparr>prompt_tokens = Some 100, completion_tokens = None\<rparr>\<rparr>"
    by (simp add: counted_answer_def)
  have c: "choices \<lparr>choices = Some [Some (of_ascii ''Tres bien'')],
       usage = Some \<lparr>prompt_tokens = Some 100, completion_tokens = None\<rparr>\<rparr>
     = Some (Some (of_ascii ''Tres bien'') # [])" by simp
  have m: "of_ascii ''Tres bien'' \<noteq> []" by (simp add: of_ascii_def)
  have e: "estimateTokens (of_ascii ''Tres bien'') = 3"
    by (simp add: estimateTokens_div of_ascii_def)
  from usage_recorded_when_reported [OF pomme_clean pomme_valid r c m,
      of "of_ascii ''manger''" "of_ascii ''Present''" "''key''" fresh_storage]
    pomme_clean pomme_valid e
  show ?thesis
    by (simp add: token_count_def counted_answer_def recordUsage_def recordUsage_in_def
        getUsageStats_def fresh_storage_def ledger_of_def empty_stats_def Let_def)
qed

end
